theory Spec2Isabelle
  imports Main
begin

section \<open>Configuration\<close>

text \<open>
  The literal \<^verbatim>\<open>CONFIG\<close> object of the script. The basic script (\<^verbatim>\<open>delete-photos.js\<close>) has
  no \<^verbatim>\<open>stallLimit\<close>; the stall-detection script has \<^verbatim>\<open>stallLimit: 5\<close>. One record serves
  both, the basic script never reads the field. Times are milliseconds.
\<close>

record selectors =
  checkbox :: string
  photoContainer :: string
  deleteButton :: string
  confirmationButtonText :: string

record config =
  actionDelay :: nat
  timeout :: nat
  stallLimit :: nat
  selectors :: selectors

definition CONFIG :: config where
  \<open>CONFIG =
    \<lparr> actionDelay = 1000,
      timeout = 30000,
      stallLimit = 5,
      selectors =
        \<lparr> checkbox = ''.ckGgle[aria-checked=false]'',
          photoContainer = ''div[jsname='fPosBb']'',
          deleteButton = ''button[aria-label="Move to trash"]'',
          confirmationButtonText = ''Move to trash'' \<rparr> \<rparr>\<close>

text \<open>The interval of \<^verbatim>\<open>setInterval(..., 250)\<close> in \<^verbatim>\<open>waitUntil\<close>.\<close>

definition pollInterval :: nat where
  "pollInterval = 250"

section \<open>Values, errors and the page\<close>

text \<open>
  The JavaScript values a probe can hand to \<^verbatim>\<open>waitUntil\<close>: \<^verbatim>\<open>undefined\<close>, \<^verbatim>\<open>null\<close>, a
  boolean, a number, a string, a DOM node, a list of nodes (a \<^verbatim>\<open>NodeList\<close> or an array), a
  function, given by the number of its parameters, which is its \<^verbatim>\<open>length\<close>, and any other
  object, given by its \<^verbatim>\<open>length\<close>, a number when it has one, and by whether its \<^verbatim>\<open>nodeType\<close>
  is truthy. A symbol or a bigint passes the test of \<^verbatim>\<open>waitUntil\<close> like a boolean or a
  number of the same truthiness. \<open>'e\<close> is the type of element handles.
\<close>

datatype 'e jsval =
    JUndefined
  | JNull
  | JBool bool
  | JNum int
  | JStr string
  | JNode 'e
  | JList "'e list"
  | JFun nat
  | JObject "int option" bool

text \<open>JavaScript truthiness: every object, also an empty list, is truthy.\<close>

fun truthy :: "'e jsval \<Rightarrow> bool" where
  "truthy JUndefined = False"
| "truthy JNull = False"
| "truthy (JBool b) = b"
| "truthy (JNum n) = (n \<noteq> 0)"
| "truthy (JStr t) = (t \<noteq> [])"
| "truthy (JNode e) = True"
| "truthy (JList xs) = True"
| "truthy (JFun n) = True"
| "truthy (JObject len nt) = True"

text \<open>
  \<^verbatim>\<open>result.length > 0\<close>: strings, lists and functions have a length, another object may
  have one; where the property is \<^verbatim>\<open>undefined\<close> the comparison is false.
\<close>

fun positive_length :: "'e jsval \<Rightarrow> bool" where
  "positive_length (JStr t) = (0 < length t)"
| "positive_length (JList xs) = (0 < length xs)"
| "positive_length (JFun n) = (0 < n)"
| "positive_length (JObject (Some len) nt) = (0 < len)"
| "positive_length _ = False"

text \<open>
  \<^verbatim>\<open>result.nodeType\<close>: a positive number on a DOM node, whatever the object holds on another
  object, \<^verbatim>\<open>undefined\<close> elsewhere.
\<close>

fun has_nodeType :: "'e jsval \<Rightarrow> bool" where
  "has_nodeType (JNode e) = True"
| "has_nodeType (JObject len nt) = nt"
| "has_nodeType _ = False"

text \<open>The test \<^verbatim>\<open>result && (result.length > 0 || result.nodeType)\<close> of \<^verbatim>\<open>waitUntil\<close>.\<close>

definition satisfied :: "'e jsval \<Rightarrow> bool" where
  "satisfied result = (truthy result \<and> (positive_length result \<or> has_nodeType result))"

text \<open>A thrown \<^verbatim>\<open>Error\<close>, with its message.\<close>

datatype error = Error string

fun message :: "error \<Rightarrow> string" where
  "message (Error m) = m"

text \<open>
  The page the script runs on, as the script sees it. \<open>'w\<close> is the state of the page.
  \<open>click\<close> returns the message of the error the click threw, if it threw, and the page after
  the click. \<open>elapse ms\<close> is what the page does by itself while the script is suspended for
  \<open>ms\<close> milliseconds (loading, removing, re-rendering).
\<close>

record ('w, 'e) dom =
  querySelector :: "string \<Rightarrow> 'w \<Rightarrow> 'e option"
  querySelectorAll :: "string \<Rightarrow> 'w \<Rightarrow> 'e list"
  textContent :: "'w \<Rightarrow> 'e \<Rightarrow> string"
  click :: "'e \<Rightarrow> 'w \<Rightarrow> string option \<times> 'w"
  elapse :: "nat \<Rightarrow> 'w \<Rightarrow> 'w"

text \<open>
  What a run threads through: the clock read by \<^verbatim>\<open>Date.now()\<close>, the page, and the
  elements on which \<^verbatim>\<open>click()\<close> has been called so far, oldest first.
\<close>

record ('w, 'e) state =
  clock :: nat
  page :: 'w
  clicked :: "'e list"

section \<open>sleep and waitUntil\<close>

text \<open>
  \<^verbatim>\<open>sleep(ms)\<close>: the script is suspended for \<open>ms\<close> milliseconds. Timers are taken to fire on
  time: a timer set for \<open>ms\<close> fires after exactly \<open>ms\<close>.
\<close>

definition sleep :: "('w, 'e) dom \<Rightarrow> nat \<Rightarrow> ('w, 'e) state \<Rightarrow> ('w, 'e) state" where
  "sleep D ms s = s\<lparr>clock := clock s + ms, page := elapse D ms (page s)\<rparr>"

text \<open>Decimal digits of a natural number, and \<^verbatim>\<open>${timeout / 1000}\<close> as JavaScript prints it.\<close>

definition digit_char :: "nat \<Rightarrow> char" where
  "digit_char d = ''0123456789'' ! d"

fun decimal :: "nat \<Rightarrow> string" where
  "decimal n =
     (if n < 10 then [digit_char n] else decimal (n div 10) @ [digit_char (n mod 10)])"

definition seconds_text :: "nat \<Rightarrow> string" where
  "seconds_text ms =
     decimal (ms div 1000) @
     (let m = ms mod 1000; d1 = m div 100; d2 = (m div 10) mod 10; d3 = m mod 10 in
      if m = 0 then []
      else if d3 \<noteq> 0 then ''.'' @ decimal d1 @ decimal d2 @ decimal d3
      else if d2 \<noteq> 0 then ''.'' @ decimal d1 @ decimal d2
      else ''.'' @ decimal d1)"

definition timeout_message :: "string \<Rightarrow> nat \<Rightarrow> string" where
  "timeout_message description limit =
     ''Timeout: Could not find '' @ description @ '' after '' @ seconds_text limit @ '' seconds.''"

text \<open>
  The callback of \<^verbatim>\<open>setInterval\<close>, once per tick: each tick comes \<open>pollInterval\<close> after the
  one before; the callback first compares the elapsed time with the limit, then calls the
  probe on the page as it is at that tick.
\<close>

function wait_loop ::
  "('w, 'e) dom \<Rightarrow> ('w \<Rightarrow> 'e jsval) \<Rightarrow> string \<Rightarrow> nat \<Rightarrow> nat \<Rightarrow> ('w, 'e) state
    \<Rightarrow> (error + 'e jsval) \<times> ('w, 'e) state" where
  "wait_loop D condition description limit startTime s =
     (let s' = sleep D pollInterval s in
      if clock s' - startTime > limit
      then (Inl (Error (timeout_message description limit)), s')
      else
        let result = condition (page s') in
        if satisfied result then (Inr result, s')
        else wait_loop D condition description limit startTime s')"
  by pat_completeness auto
termination
  by (relation "measure (\<lambda>(D, condition, description, limit, startTime, s).
        limit + startTime + pollInterval - clock s)")
     (auto simp: sleep_def pollInterval_def)

definition waitUntil ::
  "('w, 'e) dom \<Rightarrow> ('w \<Rightarrow> 'e jsval) \<Rightarrow> string \<Rightarrow> nat \<Rightarrow> ('w, 'e) state
    \<Rightarrow> (error + 'e jsval) \<times> ('w, 'e) state" where
  "waitUntil D condition description limit s =
     wait_loop D condition description limit (clock s) s"

section \<open>The deletion action sequence\<close>

text \<open>\<^verbatim>\<open>document.querySelector(sel)\<close> as a probe: the element, or \<^verbatim>\<open>null\<close>.\<close>

definition query_probe :: "('w, 'e) dom \<Rightarrow> string \<Rightarrow> 'w \<Rightarrow> 'e jsval" where
  "query_probe D sel w = (case querySelector D sel w of None \<Rightarrow> JNull | Some e \<Rightarrow> JNode e)"

text \<open>\<^verbatim>\<open>document.querySelectorAll(sel)\<close> as a probe: a list, possibly empty.\<close>

definition query_all_probe :: "('w, 'e) dom \<Rightarrow> string \<Rightarrow> 'w \<Rightarrow> 'e jsval" where
  "query_all_probe D sel w = JList (querySelectorAll D sel w)"

text \<open>
  \<^verbatim>\<open>Array.from(document.querySelectorAll("button")).find((b) => b.textContent === text)\<close>:
  the first button whose text is the given one, or \<^verbatim>\<open>undefined\<close>.
\<close>

definition confirm_probe :: "('w, 'e) dom \<Rightarrow> string \<Rightarrow> 'w \<Rightarrow> 'e jsval" where
  "confirm_probe D txt w =
     (case find (\<lambda>b. textContent D w b = txt) (querySelectorAll D ''button'' w) of
        None \<Rightarrow> JUndefined
      | Some b \<Rightarrow> JNode b)"

text \<open>\<^verbatim>\<open>e.click()\<close> on an element: the click is recorded, the page changes, the click may throw.\<close>

definition click_node ::
  "('w, 'e) dom \<Rightarrow> 'e \<Rightarrow> ('w, 'e) state \<Rightarrow> error option \<times> ('w, 'e) state" where
  "click_node D e s =
     (case click D e (page s) of
        (thrown, w) \<Rightarrow> (map_option Error thrown, s\<lparr>page := w, clicked := clicked s @ [e]\<rparr>))"

text \<open>
  \<^verbatim>\<open>v.click()\<close> on the value \<^verbatim>\<open>waitUntil\<close> resolved with. The probes of \<^verbatim>\<open>executeDeletion\<close>
  yield an element or nothing, so the value is an element; on any other value the call is a
  \<^verbatim>\<open>TypeError\<close>.
\<close>

fun click_value ::
  "('w, 'e) dom \<Rightarrow> 'e jsval \<Rightarrow> ('w, 'e) state \<Rightarrow> error option \<times> ('w, 'e) state" where
  "click_value D (JNode e) s = click_node D e s"
| "click_value D _ s = (Some (Error ''click is not a function''), s)"

definition executeDeletion ::
  "config \<Rightarrow> ('w, 'e) dom \<Rightarrow> ('w, 'e) state \<Rightarrow> (error + unit) \<times> ('w, 'e) state" where
  \<open>executeDeletion cfg D s =
     (case waitUntil D (query_probe D (deleteButton (selectors cfg)))
             ''main "Move to trash" button'' (timeout cfg) s of
        (Inl e, s1) \<Rightarrow> (Inl e, s1)
      | (Inr deleteBtn, s1) \<Rightarrow>
     (case click_value D deleteBtn s1 of
        (Some e, s2) \<Rightarrow> (Inl e, s2)
      | (None, s2) \<Rightarrow>
     (case waitUntil D (confirm_probe D (confirmationButtonText (selectors cfg)))
             ''confirmation "Move to trash" button'' (timeout cfg) s2 of
        (Inl e, s3) \<Rightarrow> (Inl e, s3)
      | (Inr confirmBtn, s3) \<Rightarrow>
     (case click_value D confirmBtn s3 of
        (Some e, s4) \<Rightarrow> (Inl e, s4)
      | (None, s4) \<Rightarrow> (Inr (), sleep D (actionDelay cfg) s4)))))\<close>

section \<open>The batch loop\<close>

text \<open>
  \<^verbatim>\<open>for (const box of checkBoxes) { try { box.click(); } catch (e) { console.warn(...) } }\<close>:
  whatever a click throws is caught inside the loop.
\<close>

fun select_all :: "('w, 'e) dom \<Rightarrow> 'e list \<Rightarrow> ('w, 'e) state \<Rightarrow> ('w, 'e) state" where
  "select_all D [] s = s"
| "select_all D (box # boxes) s =
     (case click_node D box s of (thrown, s') \<Rightarrow> select_all D boxes s')"

text \<open>\<^verbatim>\<open>String.prototype.includes\<close>.\<close>

fun starts_with :: "string \<Rightarrow> string \<Rightarrow> bool" where
  "starts_with hay [] = True"
| "starts_with [] (c # cs) = False"
| "starts_with (h # hay) (c # cs) = (h = c \<and> starts_with hay cs)"

fun str_includes :: "string \<Rightarrow> string \<Rightarrow> bool" where
  "str_includes [] needle = (needle = [])"
| "str_includes (h # hay) needle = (starts_with (h # hay) needle \<or> str_includes hay needle)"

text \<open>
  How a run ends. \<open>Done\<close>: the loop logged "Could not find any more photos after waiting.
  Mission accomplished!". \<open>Halted m\<close>: the loop logged "[SCRIPT HALTED]" with the message \<open>m\<close>
  and the advice to refresh the page and run the script again. \<open>reported\<close> is the number in
  the last line, "Script finished. A total of approximately ... photos were deleted."
\<close>

datatype outcome = Done | Halted string

record report =
  outcome :: outcome
  reported :: nat

subsection \<open>Seeking and selecting (both scripts)\<close>

text \<open>
  The start of the \<^verbatim>\<open>try\<close> block, the same in both scripts: wait for the photo container,
  wait for selectable controls, click every control found. It gives the controls found
  (\<^verbatim>\<open>checkBoxes\<close>), or the error that left the block. The probe yields a list, so
  \<^verbatim>\<open>waitUntil\<close> resolves with a list; \<^verbatim>\<open>for ... of\<close> on any other value is a \<^verbatim>\<open>TypeError\<close>.
\<close>

definition seek_and_select ::
  "config \<Rightarrow> ('w, 'e) dom \<Rightarrow> ('w, 'e) state \<Rightarrow> (error + 'e list) \<times> ('w, 'e) state" where
  "seek_and_select cfg D s =
     (case waitUntil D (query_probe D (photoContainer (selectors cfg)))
             ''main photo container'' (timeout cfg) s of
        (Inl e, s1) \<Rightarrow> (Inl e, s1)
      | (Inr found, s1) \<Rightarrow>
     (case waitUntil D (query_all_probe D (checkbox (selectors cfg)))
             ''any selectable photo'' (timeout cfg) s1 of
        (Inl e, s2) \<Rightarrow> (Inl e, s2)
      | (Inr (JList checkBoxes), s2) \<Rightarrow> (Inr checkBoxes, select_all D checkBoxes s2)
      | (Inr other, s2) \<Rightarrow> (Inl (Error ''checkBoxes is not iterable''), s2)))"

subsection \<open>The basic script (\<^verbatim>\<open>delete-photos.js\<close>)\<close>

text \<open>
  The body of \<^verbatim>\<open>try\<close> in one turn of the loop. It gives the error that left the block, if one
  did, and \<^verbatim>\<open>totalDeleted\<close> as the block leaves it: the count is added before the deletion
  runs.
\<close>

definition try_body_basic ::
  "config \<Rightarrow> ('w, 'e) dom \<Rightarrow> nat \<Rightarrow> ('w, 'e) state \<Rightarrow> (error option \<times> nat) \<times> ('w, 'e) state" where
  "try_body_basic cfg D totalDeleted s =
     (case seek_and_select cfg D s of
        (Inl e, s3) \<Rightarrow> ((Some e, totalDeleted), s3)
      | (Inr checkBoxes, s3) \<Rightarrow>
          (let totalDeleted' = totalDeleted + length checkBoxes;
               s4 = sleep D 500 s3
           in case executeDeletion cfg D s4 of
                (Inl e, s5) \<Rightarrow> ((Some e, totalDeleted'), s5)
              | (Inr u, s5) \<Rightarrow> ((None, totalDeleted'), s5)))"

text \<open>
  \<^verbatim>\<open>while (true) { try { ... } catch (error) { ...; break; } }\<close>: every error ends the loop
  with the "Mission accomplished" line. The loop need not end, so the result is an option.
\<close>

partial_function (option) run_loop_basic ::
  "config \<Rightarrow> ('w, 'e) dom \<Rightarrow> nat \<Rightarrow> ('w, 'e) state \<Rightarrow> (report \<times> ('w, 'e) state) option" where
  "run_loop_basic cfg D totalDeleted s =
     (case try_body_basic cfg D totalDeleted s of
        ((None, totalDeleted'), s') \<Rightarrow> run_loop_basic cfg D totalDeleted' s'
      | ((Some e, totalDeleted'), s') \<Rightarrow>
          Some (\<lparr>outcome = Done, reported = totalDeleted'\<rparr>, s'))"

definition runPhotoDeleter_basic ::
  "config \<Rightarrow> ('w, 'e) dom \<Rightarrow> ('w, 'e) state \<Rightarrow> (report \<times> ('w, 'e) state) option" where
  "runPhotoDeleter_basic cfg D s = run_loop_basic cfg D 0 s"

subsection \<open>The stall-detection script\<close>

record run_state =
  totalDeleted :: nat
  stallCounter :: nat

definition stall_message :: string where
  "stall_message =
     ''Stall Detected. Google is likely rate-limiting you. The script will now stop.''"

text \<open>
  The \<^verbatim>\<open>try\<close> block up to and including \<^verbatim>\<open>executeDeletion()\<close>: it gives
  \<^verbatim>\<open>photoCountBefore\<close>, the number of controls found, or the error that left the block.
\<close>

definition delete_batch ::
  "config \<Rightarrow> ('w, 'e) dom \<Rightarrow> ('w, 'e) state \<Rightarrow> (error + nat) \<times> ('w, 'e) state" where
  "delete_batch cfg D s =
     (case seek_and_select cfg D s of
        (Inl e, s3) \<Rightarrow> (Inl e, s3)
      | (Inr checkBoxes, s3) \<Rightarrow>
          (let photoCountBefore = length checkBoxes;
               s4 = sleep D 500 s3
           in case executeDeletion cfg D s4 of
                (Inl e, s5) \<Rightarrow> (Inl e, s5)
              | (Inr u, s5) \<Rightarrow> (Inr photoCountBefore, s5)))"

text \<open>
  The inner \<^verbatim>\<open>try\<close> of the stall detection: the selectable controls are polled again, for
  5 seconds; a timeout is caught and counted as no control left. It gives \<^verbatim>\<open>photoCountAfter\<close>.
  The probe yields a list, so the wait resolves with a list; the last case does not arise.
\<close>

definition count_after :: "config \<Rightarrow> ('w, 'e) dom \<Rightarrow> ('w, 'e) state \<Rightarrow> nat \<times> ('w, 'e) state" where
  "count_after cfg D s =
     (case waitUntil D (query_all_probe D (checkbox (selectors cfg)))
             ''any selectable photo'' 5000 s of
        (Inl e, s') \<Rightarrow> (0, s')
      | (Inr (JList checkBoxesAfter), s') \<Rightarrow> (length checkBoxesAfter, s')
      | (Inr other, s') \<Rightarrow> (0, s'))"

text \<open>
  The comparison of the two counts. A stall adds one to the counter and throws at the limit;
  a decrease resets the counter and adds the difference to the total.
\<close>

definition account :: "config \<Rightarrow> run_state \<Rightarrow> nat \<Rightarrow> nat \<Rightarrow> error + run_state" where
  "account cfg rs photoCountBefore photoCountAfter =
     (if photoCountAfter \<ge> photoCountBefore then
        (let stallCounter' = stallCounter rs + 1 in
         if stallCounter' \<ge> stallLimit cfg then Inl (Error stall_message)
         else Inr (rs\<lparr>stallCounter := stallCounter'\<rparr>))
      else
        Inr \<lparr>totalDeleted = totalDeleted rs + (photoCountBefore - photoCountAfter),
             stallCounter = 0\<rparr>)"

text \<open>
  The body of the outer \<^verbatim>\<open>try\<close> in one turn of the loop: the error that left the block, or
  the counters for the next turn. No path that throws has changed \<^verbatim>\<open>totalDeleted\<close>.
\<close>

definition try_body_stall ::
  "config \<Rightarrow> ('w, 'e) dom \<Rightarrow> run_state \<Rightarrow> ('w, 'e) state \<Rightarrow> (error + run_state) \<times> ('w, 'e) state" where
  "try_body_stall cfg D rs s =
     (case delete_batch cfg D s of
        (Inl e, s5) \<Rightarrow> (Inl e, s5)
      | (Inr photoCountBefore, s5) \<Rightarrow>
          (case count_after cfg D s5 of
             (photoCountAfter, s6) \<Rightarrow> (account cfg rs photoCountBefore photoCountAfter, s6)))"

text \<open>
  The outer \<^verbatim>\<open>catch\<close>: an error whose message includes "any selectable photo" ends the run
  with the "Mission accomplished" line, any other error with "[SCRIPT HALTED]"; both break.
\<close>

definition on_error :: "error \<Rightarrow> outcome" where
  "on_error e =
     (if str_includes (message e) ''any selectable photo'' then Done else Halted (message e))"

partial_function (option) run_loop_stall ::
  "config \<Rightarrow> ('w, 'e) dom \<Rightarrow> run_state \<Rightarrow> ('w, 'e) state \<Rightarrow> (report \<times> ('w, 'e) state) option" where
  "run_loop_stall cfg D rs s =
     (case try_body_stall cfg D rs s of
        (Inr rs', s') \<Rightarrow> run_loop_stall cfg D rs' s'
      | (Inl e, s') \<Rightarrow>
          Some (\<lparr>outcome = on_error e, reported = totalDeleted rs\<rparr>, s'))"

definition runPhotoDeleter_stall ::
  "config \<Rightarrow> ('w, 'e) dom \<Rightarrow> ('w, 'e) state \<Rightarrow> (report \<times> ('w, 'e) state) option" where
  "runPhotoDeleter_stall cfg D s =
     run_loop_stall cfg D \<lparr>totalDeleted = 0, stallCounter = 0\<rparr> s"

section \<open>Observing a run\<close>

text \<open>The state at the \<open>k\<close>-th tick of a wait that starts in \<open>s\<close>.\<close>

definition after_ticks :: "('w, 'e) dom \<Rightarrow> nat \<Rightarrow> ('w, 'e) state \<Rightarrow> ('w, 'e) state" where
  "after_ticks D k s = ((sleep D pollInterval) ^^ k) s"

text \<open>
  The counters and the state at the head of the loop of the stall-detection script after
  \<open>n\<close> full turns, when the loop gets that far.
\<close>

fun loop_head ::
  "config \<Rightarrow> ('w, 'e) dom \<Rightarrow> nat \<Rightarrow> run_state \<Rightarrow> ('w, 'e) state
    \<Rightarrow> (run_state \<times> ('w, 'e) state) option" where
  "loop_head cfg D 0 rs s = Some (rs, s)"
| "loop_head cfg D (Suc n) rs s =
     (case try_body_stall cfg D rs s of
        (Inl e, s') \<Rightarrow> None
      | (Inr rs', s') \<Rightarrow> loop_head cfg D n rs' s')"

text \<open>
  A stalled turn: the turn that starts in \<open>s\<close> gets to the comparison, and the count after
  the deletion is not below the count before it.
\<close>

definition stalled :: "config \<Rightarrow> ('w, 'e) dom \<Rightarrow> ('w, 'e) state \<Rightarrow> bool" where
  "stalled cfg D s =
     (case delete_batch cfg D s of
        (Inl e, s5) \<Rightarrow> False
      | (Inr photoCountBefore, s5) \<Rightarrow> photoCountBefore \<le> fst (count_after cfg D s5))"

section \<open>A simulated page\<close>

text \<open>
  A page for trying the script: it holds batches of items, of the given sizes; the first
  batch is on screen, each item with a checkbox. Clicking a checkbox checks it; while a box
  is checked the toolbar shows the trash button; the trash button opens a dialog with the
  buttons "Cancel" and "Move to trash"; confirming removes the batch on screen, and the next
  batch is on screen at once. The click of a box listed in \<open>detached\<close> throws. Nothing
  happens by itself as time passes.
\<close>

datatype sim_elem = Container | TrashButton | CancelButton | ConfirmButton | Checkbox nat

record sim =
  container :: bool
  batches :: "nat list"
  checked :: "nat list"
  dialog :: bool
  detached :: "nat list"

definition on_screen :: "sim \<Rightarrow> nat" where
  "on_screen w = (case batches w of [] \<Rightarrow> 0 | b # bs \<Rightarrow> b)"

definition sim_querySelector :: "string \<Rightarrow> sim \<Rightarrow> sim_elem option" where
  "sim_querySelector sel w =
     (if sel = photoContainer (selectors CONFIG)
      then (if container w then Some Container else None)
      else if sel = deleteButton (selectors CONFIG)
      then (if checked w \<noteq> [] then Some TrashButton else None)
      else None)"

definition sim_querySelectorAll :: "string \<Rightarrow> sim \<Rightarrow> sim_elem list" where
  "sim_querySelectorAll sel w =
     (if sel = checkbox (selectors CONFIG)
      then map Checkbox (filter (\<lambda>i. i \<notin> set (checked w)) [0..<on_screen w])
      else if sel = ''button''
      then (if checked w \<noteq> [] then [TrashButton] else []) @
           (if dialog w then [CancelButton, ConfirmButton] else [])
      else [])"

definition sim_textContent :: "sim \<Rightarrow> sim_elem \<Rightarrow> string" where
  "sim_textContent w e =
     (case e of
        ConfirmButton \<Rightarrow> ''Move to trash''
      | CancelButton \<Rightarrow> ''Cancel''
      | _ \<Rightarrow> [])"

definition sim_click :: "sim_elem \<Rightarrow> sim \<Rightarrow> string option \<times> sim" where
  "sim_click e w =
     (case e of
        Checkbox i \<Rightarrow>
          (if i \<in> set (detached w) then (Some ''the element is detached'', w)
           else if i < on_screen w \<and> i \<notin> set (checked w)
           then (None, w\<lparr>checked := checked w @ [i]\<rparr>)
           else (None, w\<lparr>checked := removeAll i (checked w)\<rparr>))
      | TrashButton \<Rightarrow> (None, if checked w \<noteq> [] then w\<lparr>dialog := True\<rparr> else w)
      | CancelButton \<Rightarrow> (None, w\<lparr>dialog := False\<rparr>)
      | ConfirmButton \<Rightarrow>
          (None, if dialog w
                 then w\<lparr>batches := tl (batches w), checked := [], dialog := False\<rparr>
                 else w)
      | Container \<Rightarrow> (None, w))"

definition sim_dom :: "(sim, sim_elem) dom" where
  "sim_dom =
     \<lparr> querySelector = sim_querySelector,
       querySelectorAll = sim_querySelectorAll,
       textContent = sim_textContent,
       click = sim_click,
       elapse = (\<lambda>ms w. w) \<rparr>"

text \<open>The page with the given batches, nothing checked, every box clickable.\<close>

definition sim_page :: "bool \<Rightarrow> nat list \<Rightarrow> sim" where
  "sim_page c bs = \<lparr>container = c, batches = bs, checked = [], dialog = False, detached = []\<rparr>"

text \<open>The state in which the script is started on a page.\<close>

definition start :: "'w \<Rightarrow> ('w, 'e) state" where
  "start w = \<lparr>clock = 0, page = w, clicked = []\<rparr>"

text \<open>Two probes for trying \<^verbatim>\<open>waitUntil\<close>: one yields \<^verbatim>\<open>null\<close> for ever, one \<^verbatim>\<open>true\<close>.\<close>

definition never_probe :: "sim \<Rightarrow> sim_elem jsval" where
  "never_probe w = JNull"

definition flag_probe :: "sim \<Rightarrow> sim_elem jsval" where
  "flag_probe w = JBool True"

text \<open>
  A page that is still loading: its state is the time since the script was started on it,
  and what the script looks for is there from the time \<open>ready\<close> on.
\<close>

definition loading_dom :: "nat \<Rightarrow> (nat, unit) dom" where
  "loading_dom ready =
     \<lparr> querySelector = (\<lambda>sel w. if ready \<le> w then Some () else None),
       querySelectorAll = (\<lambda>sel w. if ready \<le> w then [()] else []),
       textContent = (\<lambda>w e. []),
       click = (\<lambda>e w. (None, w)),
       elapse = (\<lambda>ms w. w + ms) \<rparr>"

text \<open>
  The same page when the next batch takes time to show: for \<open>latency\<close> milliseconds after
  a confirmed deletion no batch is on screen, then the next one is. \<open>pending\<close> is the time
  still to pass. A click while nothing is on screen changes nothing.
\<close>

record lazy =
  inner :: sim
  latency :: nat
  pending :: nat

text \<open>What is on screen: the batches show only when no time is pending.\<close>

definition shown :: "lazy \<Rightarrow> sim" where
  "shown w = (if pending w = 0 then inner w else (inner w)\<lparr>batches := []\<rparr>)"

definition lazy_click :: "sim_elem \<Rightarrow> lazy \<Rightarrow> string option \<times> lazy" where
  "lazy_click e w =
     (if pending w = 0 then
        (case sim_click e (inner w) of
           (thrown, v) \<Rightarrow>
             (thrown,
              w\<lparr>inner := v,
                pending := (if e = ConfirmButton \<and> dialog (inner w) then latency w else 0)\<rparr>))
      else (None, w))"

definition lazy_dom :: "(lazy, sim_elem) dom" where
  "lazy_dom =
     \<lparr> querySelector = (\<lambda>sel w. sim_querySelector sel (shown w)),
       querySelectorAll = (\<lambda>sel w. sim_querySelectorAll sel (shown w)),
       textContent = (\<lambda>w. sim_textContent (shown w)),
       click = lazy_click,
       elapse = (\<lambda>ms w. w\<lparr>pending := pending w - ms\<rparr>) \<rparr>"

text \<open>The page with the given loading time and batches, the first batch on screen.\<close>

definition lazy_page :: "nat \<Rightarrow> nat list \<Rightarrow> lazy" where
  "lazy_page d bs = \<lparr>inner = sim_page True bs, latency = d, pending = 0\<rparr>"

section \<open>Facts about the model\<close>

subsection \<open>Ticks and waits\<close>

text \<open>
  A wait that finds what it waits for at tick \<open>k\<close>, not later than the limit, resolves there;
  a wait that finds it at no tick within the limit fails at the first tick after the limit.
\<close>

lemma after_ticks_0: "after_ticks D 0 s = s"
  by (simp add: after_ticks_def)

lemma after_ticks_Suc: "after_ticks D (Suc k) s = after_ticks D k (sleep D pollInterval s)"
  by (simp add: after_ticks_def funpow_swap1)

lemma clock_sleep: "clock (sleep D ms s) = clock s + ms"
  by (simp add: sleep_def)

lemma clicked_sleep: "clicked (sleep D ms s) = clicked s"
  by (simp add: sleep_def)

lemma clock_after_ticks: "clock (after_ticks D k s) = clock s + pollInterval * k"
  by (induction k arbitrary: s) (simp_all add: after_ticks_0 after_ticks_Suc clock_sleep)

lemma clicked_after_ticks: "clicked (after_ticks D k s) = clicked s"
  by (induction k arbitrary: s) (simp_all add: after_ticks_0 after_ticks_Suc clicked_sleep)

lemma wait_loop_resolves:
  assumes "0 < k"
    and "\<forall>j. 0 < j \<and> j < k \<longrightarrow> \<not> satisfied (condition (page (after_ticks D j s)))"
    and "clock s + pollInterval * k - startTime \<le> limit"
    and "satisfied (condition (page (after_ticks D k s)))"
  shows "wait_loop D condition description limit startTime s =
           (Inr (condition (page (after_ticks D k s))), after_ticks D k s)"
  using assms
proof (induction k arbitrary: s)
  case 0
  then show ?case by simp
next
  case (Suc k)
  let ?s' = "sleep D pollInterval s"
  have le1: "clock ?s' - startTime \<le> limit"
    using Suc.prems(3) by (simp add: clock_sleep)
  show ?case
  proof (cases "k = 0")
    case True
    with Suc.prems(4) have "satisfied (condition (page ?s'))"
      by (simp add: after_ticks_Suc after_ticks_0)
    with le1 True show ?thesis
      by (subst wait_loop.simps) (simp add: Let_def after_ticks_Suc after_ticks_0)
  next
    case False
    then have kpos: "0 < k" by simp
    have "\<not> satisfied (condition (page (after_ticks D (Suc 0) s)))"
      using Suc.prems(2) kpos by simp
    then have ns: "\<not> satisfied (condition (page ?s'))"
      by (simp add: after_ticks_Suc after_ticks_0)
    have a2: "\<forall>j. 0 < j \<and> j < k \<longrightarrow> \<not> satisfied (condition (page (after_ticks D j ?s')))"
    proof (intro allI impI)
      fix j assume "0 < j \<and> j < k"
      then have "0 < Suc j \<and> Suc j < Suc k" by simp
      with Suc.prems(2) have "\<not> satisfied (condition (page (after_ticks D (Suc j) s)))"
        by blast
      then show "\<not> satisfied (condition (page (after_ticks D j ?s')))"
        by (simp add: after_ticks_Suc)
    qed
    have a3: "clock ?s' + pollInterval * k - startTime \<le> limit"
      using Suc.prems(3) by (simp add: clock_sleep algebra_simps)
    have a4: "satisfied (condition (page (after_ticks D k ?s')))"
      using Suc.prems(4) by (simp add: after_ticks_Suc)
    have ih: "wait_loop D condition description limit startTime ?s' =
           (Inr (condition (page (after_ticks D k ?s'))), after_ticks D k ?s')"
      by (rule Suc.IH [OF kpos a2 a3 a4])
    show ?thesis
      using le1 ns ih
      by (subst wait_loop.simps) (simp add: Let_def after_ticks_Suc)
  qed
qed

lemma wait_loop_rejects:
  assumes "0 < k"
    and "\<forall>j. 0 < j \<and> j < k \<longrightarrow> \<not> satisfied (condition (page (after_ticks D j s)))"
    and "clock s + pollInterval * (k - 1) - startTime \<le> limit"
    and "clock s + pollInterval * k - startTime > limit"
  shows "wait_loop D condition description limit startTime s =
           (Inl (Error (timeout_message description limit)), after_ticks D k s)"
  using assms
proof (induction k arbitrary: s)
  case 0
  then show ?case by simp
next
  case (Suc k)
  let ?s' = "sleep D pollInterval s"
  show ?case
  proof (cases "k = 0")
    case True
    with Suc.prems(4) have "clock ?s' - startTime > limit"
      by (simp add: clock_sleep)
    with True show ?thesis
      by (subst wait_loop.simps) (simp add: Let_def after_ticks_Suc after_ticks_0)
  next
    case False
    then have kpos: "0 < k" by simp
    have le1: "clock ?s' - startTime \<le> limit"
      using Suc.prems(3) kpos by (cases k) (simp_all add: clock_sleep algebra_simps)
    have "\<not> satisfied (condition (page (after_ticks D (Suc 0) s)))"
      using Suc.prems(2) kpos by simp
    then have ns: "\<not> satisfied (condition (page ?s'))"
      by (simp add: after_ticks_Suc after_ticks_0)
    have a2: "\<forall>j. 0 < j \<and> j < k \<longrightarrow> \<not> satisfied (condition (page (after_ticks D j ?s')))"
    proof (intro allI impI)
      fix j assume "0 < j \<and> j < k"
      then have "0 < Suc j \<and> Suc j < Suc k" by simp
      with Suc.prems(2) have "\<not> satisfied (condition (page (after_ticks D (Suc j) s)))"
        by blast
      then show "\<not> satisfied (condition (page (after_ticks D j ?s')))"
        by (simp add: after_ticks_Suc)
    qed
    have a3: "clock ?s' + pollInterval * (k - 1) - startTime \<le> limit"
      using Suc.prems(3) kpos by (cases k) (simp_all add: clock_sleep algebra_simps)
    have a4: "clock ?s' + pollInterval * k - startTime > limit"
      using Suc.prems(4) by (simp add: clock_sleep algebra_simps)
    have ih: "wait_loop D condition description limit startTime ?s' =
           (Inl (Error (timeout_message description limit)), after_ticks D k ?s')"
      by (rule Suc.IH [OF kpos a2 a3 a4])
    show ?thesis
      using le1 ns ih
      by (subst wait_loop.simps) (simp add: Let_def after_ticks_Suc)
  qed
qed

lemma waitUntil_resolves:
  assumes "0 < k"
    and "\<forall>j. 0 < j \<and> j < k \<longrightarrow> \<not> satisfied (condition (page (after_ticks D j s)))"
    and "pollInterval * k \<le> limit"
    and "satisfied (condition (page (after_ticks D k s)))"
  shows "waitUntil D condition description limit s =
           (Inr (condition (page (after_ticks D k s))), after_ticks D k s)"
  unfolding waitUntil_def
  by (rule wait_loop_resolves) (use assms in simp_all)

lemma waitUntil_rejects:
  assumes "\<forall>j. 0 < j \<and> pollInterval * j \<le> limit \<longrightarrow> \<not> satisfied (condition (page (after_ticks D j s)))"
  shows "waitUntil D condition description limit s =
           (Inl (Error (timeout_message description limit)),
            after_ticks D (limit div pollInterval + 1) s)"
  unfolding waitUntil_def
proof (rule wait_loop_rejects)
  show "0 < limit div pollInterval + 1" by simp
  show "\<forall>j. 0 < j \<and> j < limit div pollInterval + 1 \<longrightarrow>
          \<not> satisfied (condition (page (after_ticks D j s)))"
  proof (intro allI impI)
    fix j assume j: "0 < j \<and> j < limit div pollInterval + 1"
    then have "j \<le> limit div pollInterval" by simp
    then have "pollInterval * j \<le> pollInterval * (limit div pollInterval)" by simp
    also have "\<dots> \<le> limit" by simp
    finally show "\<not> satisfied (condition (page (after_ticks D j s)))"
      using assms j by blast
  qed
  show "clock s + pollInterval * (limit div pollInterval + 1 - 1) - clock s \<le> limit"
    by simp
  have "limit < pollInterval * (limit div pollInterval) + pollInterval"
    using dividend_less_times_div [of pollInterval limit] by (simp add: pollInterval_def)
  then show "limit < clock s + pollInterval * (limit div pollInterval + 1) - clock s"
    by simp
qed

text \<open>What waitUntil returns in general.\<close>

lemma wait_loop_result:
  "wait_loop D condition description limit startTime s = (r, s') \<Longrightarrow>
     clicked s' = clicked s \<and> clock s < clock s' \<and>
     (case r of
        Inl e \<Rightarrow> e = Error (timeout_message description limit)
      | Inr v \<Rightarrow> v = condition (page s') \<and> satisfied v)"
proof (induction D condition description limit startTime s rule: wait_loop.induct)
  case (1 D condition description limit startTime s)
  let ?s' = "sleep D pollInterval s"
  show ?case
  proof (cases "clock ?s' - startTime > limit")
    case True
    with "1.prems" show ?thesis
      by (subst (asm) wait_loop.simps) (auto simp: Let_def clicked_sleep clock_sleep pollInterval_def)
  next
    case le: False
    show ?thesis
    proof (cases "satisfied (condition (page ?s'))")
      case True
      with le "1.prems" show ?thesis
        by (subst (asm) wait_loop.simps) (auto simp: Let_def clicked_sleep clock_sleep pollInterval_def)
    next
      case False
      with le "1.prems" have "wait_loop D condition description limit startTime ?s' = (r, s')"
        by (subst (asm) wait_loop.simps) (simp add: Let_def)
      with "1.IH" [OF refl le refl False] show ?thesis
        by (auto simp: clicked_sleep clock_sleep)
    qed
  qed
qed

subsection \<open>Waiting and clicking on the simulated page\<close>

lemma sleep_sim: "sleep sim_dom ms s = s\<lparr>clock := clock s + ms\<rparr>"
  by (simp add: sleep_def sim_dom_def)

lemma after_ticks_sim: "after_ticks sim_dom k s = s\<lparr>clock := clock s + pollInterval * k\<rparr>"
  by (induction k arbitrary: s) (simp_all add: after_ticks_0 after_ticks_Suc sleep_sim)

lemma sim_wait_found:
  assumes "satisfied (condition (page s))" and "pollInterval \<le> limit"
  shows "waitUntil sim_dom condition description limit s =
           (Inr (condition (page s)), s\<lparr>clock := clock s + pollInterval\<rparr>)"
proof -
  have "waitUntil sim_dom condition description limit s =
          (Inr (condition (page (after_ticks sim_dom 1 s))), after_ticks sim_dom 1 s)"
    by (rule waitUntil_resolves) (use assms in \<open>auto simp: after_ticks_sim\<close>)
  then show ?thesis by (simp add: after_ticks_sim)
qed

lemma sim_wait_timeout:
  assumes "\<not> satisfied (condition (page s))"
  shows "waitUntil sim_dom condition description limit s =
           (Inl (Error (timeout_message description limit)),
            s\<lparr>clock := clock s + pollInterval * (limit div pollInterval + 1)\<rparr>)"
proof -
  have "waitUntil sim_dom condition description limit s =
          (Inl (Error (timeout_message description limit)),
           after_ticks sim_dom (limit div pollInterval + 1) s)"
    by (rule waitUntil_rejects) (use assms in \<open>simp add: after_ticks_sim\<close>)
  then show ?thesis by (simp add: after_ticks_sim)
qed

lemma select_all_sim:
  assumes "distinct xs" and "set xs \<inter> set (checked (page s)) = {}"
    and "\<forall>x\<in>set xs. x < on_screen (page s)" and "detached (page s) = []"
  shows "select_all sim_dom (map Checkbox xs) s =
           s\<lparr>page := (page s)\<lparr>checked := checked (page s) @ xs\<rparr>,
             clicked := clicked s @ map Checkbox xs\<rparr>"
  using assms
proof (induction xs arbitrary: s)
  case Nil
  then show ?case by simp
next
  case (Cons x xs)
  let ?s' = "s\<lparr>page := (page s)\<lparr>checked := checked (page s) @ [x]\<rparr>, clicked := clicked s @ [Checkbox x]\<rparr>"
  have step: "click_node sim_dom (Checkbox x) s = (None, ?s')"
    using Cons.prems by (auto simp: click_node_def sim_dom_def sim_click_def)
  have "select_all sim_dom (map Checkbox xs) ?s' =
          ?s'\<lparr>page := (page ?s')\<lparr>checked := checked (page ?s') @ xs\<rparr>,
             clicked := clicked ?s' @ map Checkbox xs\<rparr>"
    using Cons.prems by (intro Cons.IH) (auto simp: on_screen_def)
  with step show ?case by simp
qed

lemma satisfied_simps [simp]:
  "satisfied (JNode e)" "\<not> satisfied JNull" "\<not> satisfied JUndefined"
  "satisfied (JList xs) = (xs \<noteq> [])" "\<not> satisfied (JBool b)" "\<not> satisfied (JNum n)"
  "satisfied (JStr t) = (t \<noteq> [])" "satisfied (JFun k) = (0 < k)"
  "satisfied (JObject None nt) = nt" "satisfied (JObject (Some len) nt) = (0 < len \<or> nt)"
  by (auto simp: satisfied_def)

lemma seek_sim:
  assumes cfg: "selectors cfg = selectors CONFIG" "pollInterval \<le> timeout cfg"
    and pg: "page s = sim_page True (b # bs)" and b: "0 < b"
  shows "seek_and_select cfg sim_dom s =
           (Inr (map Checkbox [0..<b]),
            s\<lparr>clock := clock s + 2 * pollInterval,
              page := (sim_page True (b # bs))\<lparr>checked := [0..<b]\<rparr>,
              clicked := clicked s @ map Checkbox [0..<b]\<rparr>)"
proof -
  let ?s1 = "s\<lparr>clock := clock s + pollInterval\<rparr>"
  let ?s2 = "?s1\<lparr>clock := clock ?s1 + pollInterval\<rparr>"
  have c: "query_probe sim_dom (photoContainer (selectors cfg)) (page s) = JNode Container"
    using cfg pg by (simp add: query_probe_def sim_dom_def sim_querySelector_def sim_page_def)
  have w1: "waitUntil sim_dom (query_probe sim_dom (photoContainer (selectors cfg)))
               ''main photo container'' (timeout cfg) s = (Inr (JNode Container), ?s1)"
    using sim_wait_found [of "query_probe sim_dom (photoContainer (selectors cfg))" s "timeout cfg"] c cfg
    by simp
  have q: "query_all_probe sim_dom (checkbox (selectors cfg)) (page ?s1) = JList (map Checkbox [0..<b])"
    using cfg pg by (simp add: query_all_probe_def sim_dom_def sim_querySelectorAll_def sim_page_def on_screen_def)
  have w2: "waitUntil sim_dom (query_all_probe sim_dom (checkbox (selectors cfg)))
               ''any selectable photo'' (timeout cfg) ?s1 = (Inr (JList (map Checkbox [0..<b])), ?s2)"
    using sim_wait_found [of "query_all_probe sim_dom (checkbox (selectors cfg))" ?s1 "timeout cfg"] q cfg b
    by simp
  have sel: "select_all sim_dom (map Checkbox [0..<b]) ?s2 =
          ?s2\<lparr>page := (page ?s2)\<lparr>checked := checked (page ?s2) @ [0..<b]\<rparr>,
             clicked := clicked ?s2 @ map Checkbox [0..<b]\<rparr>"
    by (rule select_all_sim) (use pg in \<open>auto simp: sim_page_def on_screen_def\<close>)
  show ?thesis
    unfolding seek_and_select_def w1 using w2 sel pg
    by (simp add: sim_page_def)
qed

lemma exec_sim:
  assumes cfg: "selectors cfg = selectors CONFIG" "pollInterval \<le> timeout cfg"
    and pg: "page s = (sim_page True (b # bs))\<lparr>checked := cs\<rparr>" and cs: "cs \<noteq> []"
  shows "executeDeletion cfg sim_dom s =
           (Inr (),
            s\<lparr>clock := clock s + 2 * pollInterval + actionDelay cfg,
              page := sim_page True bs,
              clicked := clicked s @ [TrashButton, ConfirmButton]\<rparr>)"
proof -
  let ?s1 = "s\<lparr>clock := clock s + pollInterval\<rparr>"
  let ?s2 = "?s1\<lparr>page := (page s)\<lparr>dialog := True\<rparr>, clicked := clicked s @ [TrashButton]\<rparr>"
  let ?s3 = "?s2\<lparr>clock := clock ?s2 + pollInterval\<rparr>"
  let ?s4 = "?s3\<lparr>page := sim_page True bs, clicked := clicked ?s3 @ [ConfirmButton]\<rparr>"
  have c: "query_probe sim_dom (deleteButton (selectors cfg)) (page s) = JNode TrashButton"
    using cfg pg cs by (simp add: query_probe_def sim_dom_def sim_querySelector_def sim_page_def CONFIG_def)
  have w1: \<open>waitUntil sim_dom (query_probe sim_dom (deleteButton (selectors cfg)))
               ''main "Move to trash" button'' (timeout cfg) s = (Inr (JNode TrashButton), ?s1)\<close>
    using sim_wait_found [of "query_probe sim_dom (deleteButton (selectors cfg))" s "timeout cfg"] c cfg
    by simp
  have k1: "click_value sim_dom (JNode TrashButton) ?s1 = (None, ?s2)"
    using pg cs by (simp add: click_node_def sim_dom_def sim_click_def sim_page_def)
  have q: "confirm_probe sim_dom (confirmationButtonText (selectors cfg)) (page ?s2) = JNode ConfirmButton"
    using cfg pg cs
    by (simp add: confirm_probe_def sim_dom_def sim_querySelectorAll_def sim_textContent_def
                  sim_page_def CONFIG_def)
  have w2: \<open>waitUntil sim_dom (confirm_probe sim_dom (confirmationButtonText (selectors cfg)))
               ''confirmation "Move to trash" button'' (timeout cfg) ?s2 =
             (Inr (JNode ConfirmButton), ?s3)\<close>
    using sim_wait_found [of "confirm_probe sim_dom (confirmationButtonText (selectors cfg))" ?s2 "timeout cfg"] q cfg
    by simp
  have k2: "click_value sim_dom (JNode ConfirmButton) ?s3 = (None, ?s4)"
    using pg cs by (simp add: click_node_def sim_dom_def sim_click_def sim_page_def)
  show ?thesis
    unfolding executeDeletion_def w1 using k1 w2 k2
    by (simp add: sleep_sim)
qed

lemma try_basic_sim:
  assumes cfg: "selectors cfg = selectors CONFIG" "pollInterval \<le> timeout cfg"
    and pg: "page s = sim_page True (b # bs)" and b: "0 < b"
  shows "\<exists>s'. try_body_basic cfg sim_dom t s = ((None, t + b), s') \<and> page s' = sim_page True bs"
proof -
  let ?s3 = "s\<lparr>clock := clock s + 2 * pollInterval,
              page := (sim_page True (b # bs))\<lparr>checked := [0..<b]\<rparr>,
              clicked := clicked s @ map Checkbox [0..<b]\<rparr>"
  have 1: "seek_and_select cfg sim_dom s = (Inr (map Checkbox [0..<b]), ?s3)"
    by (rule seek_sim [OF cfg pg b])
  have ne: "[0..<b] \<noteq> []" using b by simp
  have 2: "executeDeletion cfg sim_dom (sleep sim_dom 500 ?s3) =
           (Inr (),
            (sleep sim_dom 500 ?s3)\<lparr>clock := clock (sleep sim_dom 500 ?s3) + 2 * pollInterval + actionDelay cfg,
              page := sim_page True bs,
              clicked := clicked (sleep sim_dom 500 ?s3) @ [TrashButton, ConfirmButton]\<rparr>)"
    by (rule exec_sim [OF cfg _ ne]) (simp add: sleep_sim)
  show ?thesis
    unfolding try_body_basic_def 1 by (simp add: Let_def 2)
qed

lemma seek_sim_empty:
  assumes cfg: "selectors cfg = selectors CONFIG" "pollInterval \<le> timeout cfg"
    and pg: "page s = sim_page True []"
  shows "\<exists>s'. seek_and_select cfg sim_dom s =
           (Inl (Error (timeout_message ''any selectable photo'' (timeout cfg))), s')"
proof -
  let ?s1 = "s\<lparr>clock := clock s + pollInterval\<rparr>"
  have c: "query_probe sim_dom (photoContainer (selectors cfg)) (page s) = JNode Container"
    using cfg pg by (simp add: query_probe_def sim_dom_def sim_querySelector_def sim_page_def)
  have w1: "waitUntil sim_dom (query_probe sim_dom (photoContainer (selectors cfg)))
               ''main photo container'' (timeout cfg) s = (Inr (JNode Container), ?s1)"
    using sim_wait_found [of "query_probe sim_dom (photoContainer (selectors cfg))" s "timeout cfg"] c cfg
    by simp
  have q: "query_all_probe sim_dom (checkbox (selectors cfg)) (page s) = JList []"
    using cfg pg by (simp add: query_all_probe_def sim_dom_def sim_querySelectorAll_def sim_page_def on_screen_def)
  have w2: "waitUntil sim_dom (query_all_probe sim_dom (checkbox (selectors cfg)))
               ''any selectable photo'' (timeout cfg) ?s1 =
            (Inl (Error (timeout_message ''any selectable photo'' (timeout cfg))),
             ?s1\<lparr>clock := clock ?s1 + pollInterval * (timeout cfg div pollInterval + 1)\<rparr>)"
    by (rule sim_wait_timeout) (simp add: q)
  show ?thesis
    unfolding seek_and_select_def w1 using w2 by simp
qed

lemma seek_sim_no_container:
  assumes cfg: "selectors cfg = selectors CONFIG"
    and pg: "page s = sim_page False bs"
  shows "\<exists>s'. seek_and_select cfg sim_dom s =
           (Inl (Error (timeout_message ''main photo container'' (timeout cfg))), s')"
proof -
  have c: "query_probe sim_dom (photoContainer (selectors cfg)) (page s) = JNull"
    using cfg pg by (simp add: query_probe_def sim_dom_def sim_querySelector_def sim_page_def)
  have w1: "waitUntil sim_dom (query_probe sim_dom (photoContainer (selectors cfg)))
               ''main photo container'' (timeout cfg) s =
            (Inl (Error (timeout_message ''main photo container'' (timeout cfg))),
             s\<lparr>clock := clock s + pollInterval * (timeout cfg div pollInterval + 1)\<rparr>)"
    by (rule sim_wait_timeout) (simp add: c)
  show ?thesis
    unfolding seek_and_select_def w1 by simp
qed

lemma run_basic_sim:
  assumes cfg: "selectors cfg = selectors CONFIG" "pollInterval \<le> timeout cfg"
    and pg: "page s = sim_page True bs" and pos: "\<forall>b\<in>set bs. 0 < b"
  shows "map_option fst (run_loop_basic cfg sim_dom t s) =
           Some \<lparr>outcome = Done, reported = t + sum_list bs\<rparr>"
  using pg pos
proof (induction bs arbitrary: t s)
  case Nil
  obtain s' where "seek_and_select cfg sim_dom s =
           (Inl (Error (timeout_message ''any selectable photo'' (timeout cfg))), s')"
    using seek_sim_empty [OF cfg Nil.prems(1)] by blast
  then show ?case
    by (subst run_loop_basic.simps) (simp add: try_body_basic_def)
next
  case (Cons b bs)
  then have b: "0 < b" by simp
  obtain s' where s': "try_body_basic cfg sim_dom t s = ((None, t + b), s')" "page s' = sim_page True bs"
    using try_basic_sim [OF cfg Cons.prems(1) b] by blast
  have "map_option fst (run_loop_basic cfg sim_dom (t + b) s') =
           Some \<lparr>outcome = Done, reported = t + b + sum_list bs\<rparr>"
    by (rule Cons.IH [OF s'(2)]) (use Cons.prems in simp)
  then show ?case
    by (subst run_loop_basic.simps) (simp add: s' add.assoc)
qed

lemma delete_batch_sim:
  assumes cfg: "selectors cfg = selectors CONFIG" "pollInterval \<le> timeout cfg"
    and pg: "page s = sim_page True (b # bs)" and b: "0 < b"
  shows "\<exists>s'. delete_batch cfg sim_dom s = (Inr b, s') \<and> page s' = sim_page True bs"
proof -
  let ?s3 = "s\<lparr>clock := clock s + 2 * pollInterval,
              page := (sim_page True (b # bs))\<lparr>checked := [0..<b]\<rparr>,
              clicked := clicked s @ map Checkbox [0..<b]\<rparr>"
  have 1: "seek_and_select cfg sim_dom s = (Inr (map Checkbox [0..<b]), ?s3)"
    by (rule seek_sim [OF cfg pg b])
  have ne: "[0..<b] \<noteq> []" using b by simp
  have 2: "executeDeletion cfg sim_dom (sleep sim_dom 500 ?s3) =
           (Inr (),
            (sleep sim_dom 500 ?s3)\<lparr>clock := clock (sleep sim_dom 500 ?s3) + 2 * pollInterval + actionDelay cfg,
              page := sim_page True bs,
              clicked := clicked (sleep sim_dom 500 ?s3) @ [TrashButton, ConfirmButton]\<rparr>)"
    by (rule exec_sim [OF cfg _ ne]) (simp add: sleep_sim)
  show ?thesis
    unfolding delete_batch_def 1 by (simp add: Let_def 2)
qed

lemma count_after_sim:
  assumes cfg: "selectors cfg = selectors CONFIG"
    and pg: "page s = sim_page c bs"
  shows "\<exists>s'. count_after cfg sim_dom s = (on_screen (sim_page c bs), s') \<and> page s' = page s"
proof (cases "on_screen (sim_page c bs) = 0")
  case True
  have q: "query_all_probe sim_dom (checkbox (selectors cfg)) (page s) = JList []"
    using cfg pg True by (simp add: query_all_probe_def sim_dom_def sim_querySelectorAll_def)
  have "waitUntil sim_dom (query_all_probe sim_dom (checkbox (selectors cfg)))
               ''any selectable photo'' 5000 s =
            (Inl (Error (timeout_message ''any selectable photo'' 5000)),
             s\<lparr>clock := clock s + pollInterval * (5000 div pollInterval + 1)\<rparr>)"
    by (rule sim_wait_timeout) (simp add: q)
  then show ?thesis using True by (simp add: count_after_def)
next
  case False
  let ?n = "on_screen (sim_page c bs)"
  have q: "query_all_probe sim_dom (checkbox (selectors cfg)) (page s) = JList (map Checkbox [0..<?n])"
    using cfg pg by (simp add: query_all_probe_def sim_dom_def sim_querySelectorAll_def sim_page_def)
  have "waitUntil sim_dom (query_all_probe sim_dom (checkbox (selectors cfg)))
               ''any selectable photo'' 5000 s =
            (Inr (query_all_probe sim_dom (checkbox (selectors cfg)) (page s)), s\<lparr>clock := clock s + pollInterval\<rparr>)"
    by (rule sim_wait_found) (use False in \<open>simp_all add: q pollInterval_def\<close>)
  then show ?thesis by (simp add: count_after_def q)
qed

lemma try_stall_sim:
  assumes cfg: "selectors cfg = selectors CONFIG" "pollInterval \<le> timeout cfg"
    and pg: "page s = sim_page True (b # bs)" and b: "0 < b"
  shows "\<exists>s'. try_body_stall cfg sim_dom rs s = (account cfg rs b (on_screen (sim_page True bs)), s')
            \<and> page s' = sim_page True bs"
proof -
  obtain s5 where s5: "delete_batch cfg sim_dom s = (Inr b, s5)" "page s5 = sim_page True bs"
    using delete_batch_sim [OF cfg pg b] by blast
  obtain s6 where s6: "count_after cfg sim_dom s5 = (on_screen (sim_page True bs), s6)" "page s6 = page s5"
    using count_after_sim [OF cfg(1) s5(2)] by blast
  show ?thesis
    by (simp add: try_body_stall_def s5 s6)
qed

subsection \<open>Messages\<close>

text \<open>
  The message of a timeout includes its description; the needle of the outer \<^verbatim>\<open>catch\<close> has a
  letter y, which the other descriptions and the digits of the seconds do not have.
\<close>

lemma starts_with_append: "starts_with (d @ r) d"
  by (induction d) simp_all

lemma str_includes_empty: "str_includes hay []"
  by (cases hay) simp_all

lemma str_includes_prefix: "str_includes (d @ r) d"
  by (cases "d @ r") (use starts_with_append [of d r] in \<open>auto simp: str_includes_empty\<close>)

lemma str_includes_skip: "str_includes hay d \<Longrightarrow> str_includes (p @ hay) d"
  by (induction p) simp_all

lemma timeout_message_includes: "str_includes (timeout_message d limit) d"
  unfolding timeout_message_def
  using str_includes_skip [OF str_includes_prefix] by (metis append.assoc)

lemma starts_with_set: "starts_with hay n \<Longrightarrow> set n \<subseteq> set hay"
  by (induction hay n rule: starts_with.induct) auto

lemma str_includes_set: "str_includes hay n \<Longrightarrow> set n \<subseteq> set hay"
proof (induction hay)
  case Nil
  then show ?case by simp
next
  case (Cons h hay)
  then show ?case using starts_with_set [of "h # hay" n] by auto
qed

lemma digit_not_y: "n < 10 \<Longrightarrow> digit_char n \<noteq> CHR ''y''"
proof -
  assume "n < 10"
  then have "digit_char n \<in> set ''0123456789''"
    unfolding digit_char_def by (intro nth_mem) simp
  then show ?thesis by auto
qed

lemma decimal_no_y: "CHR ''y'' \<notin> set (decimal n)"
proof (induction n rule: decimal.induct)
  case (1 n)
  show ?case
  proof (cases "n < 10")
    case True
    then show ?thesis using digit_not_y [of n] by (subst decimal.simps) auto
  next
    case False
    have "n mod 10 < 10" by simp
    then have "digit_char (n mod 10) \<noteq> CHR ''y''" by (rule digit_not_y)
    with False "1.IH" show ?thesis by (subst decimal.simps) auto
  qed
qed

lemma seconds_text_no_y: "CHR ''y'' \<notin> set (seconds_text ms)"
  by (auto simp: seconds_text_def Let_def decimal_no_y simp del: decimal.simps)

lemma timeout_message_no_y:
  "CHR ''y'' \<notin> set d \<Longrightarrow> CHR ''y'' \<notin> set (timeout_message d limit)"
  by (simp add: timeout_message_def seconds_text_no_y)

lemma timeout_message_other:
  assumes "CHR ''y'' \<notin> set d"
  shows "\<not> str_includes (timeout_message d limit) ''any selectable photo''"
proof
  assume "str_includes (timeout_message d limit) ''any selectable photo''"
  then have "set ''any selectable photo'' \<subseteq> set (timeout_message d limit)"
    by (rule str_includes_set)
  then have "CHR ''y'' \<in> set (timeout_message d limit)" by simp
  with timeout_message_no_y [OF assms] show False by simp
qed

lemma stall_message_halts: "on_error (Error stall_message) = Halted stall_message"
  by (simp add: on_error_def stall_message_def)

subsection \<open>What a wait and the deletion sequence give\<close>

lemma after_ticks_loading:
  "after_ticks (loading_dom ready) k s = s\<lparr>clock := clock s + pollInterval * k, page := page s + pollInterval * k\<rparr>"
  by (induction k arbitrary: s) (simp_all add: after_ticks_0 after_ticks_Suc sleep_def loading_dom_def)

lemma waitUntil_result:
  assumes "waitUntil D condition description limit s = (r, s')"
  shows "clicked s' = clicked s"
    and "clock s < clock s'"
    and "\<And>e. r = Inl e \<Longrightarrow> e = Error (timeout_message description limit)"
    and "\<And>v. r = Inr v \<Longrightarrow> v = condition (page s') \<and> satisfied v"
  using wait_loop_result [OF assms [unfolded waitUntil_def]] by auto

lemma query_probe_node:
  "satisfied (query_probe D sel w) \<Longrightarrow>
     \<exists>e. query_probe D sel w = JNode e \<and> querySelector D sel w = Some e"
  by (auto simp: query_probe_def split: option.splits)

lemma confirm_probe_node:
  assumes "satisfied (confirm_probe D txt w)"
  shows "\<exists>b. confirm_probe D txt w = JNode b \<and> b \<in> set (querySelectorAll D ''button'' w)
            \<and> textContent D w b = txt"
proof (cases "find (\<lambda>b. textContent D w b = txt) (querySelectorAll D ''button'' w)")
  case None
  with assms show ?thesis by (simp add: confirm_probe_def)
next
  case (Some b)
  then have "b \<in> set (querySelectorAll D ''button'' w) \<and> textContent D w b = txt"
    by (auto simp: find_Some_iff)
  with Some show ?thesis by (simp add: confirm_probe_def)
qed

lemma clicked_click_node:
  "click_node D e s = (t, s') \<Longrightarrow> clicked s' = clicked s @ [e] \<and> clock s' = clock s"
  by (auto simp: click_node_def split: prod.splits)

lemma executeDeletion_success:
  assumes ok: "executeDeletion cfg D s = (Inr (), s')"
  shows \<open>\<exists>d s1 s2 c s3 s4.
      waitUntil D (query_probe D (deleteButton (selectors cfg)))
        ''main "Move to trash" button'' (timeout cfg) s = (Inr (JNode d), s1)
    \<and> querySelector D (deleteButton (selectors cfg)) (page s1) = Some d
    \<and> click_node D d s1 = (None, s2)
    \<and> waitUntil D (confirm_probe D (confirmationButtonText (selectors cfg)))
        ''confirmation "Move to trash" button'' (timeout cfg) s2 = (Inr (JNode c), s3)
    \<and> c \<in> set (querySelectorAll D ''button'' (page s3))
    \<and> textContent D (page s3) c = confirmationButtonText (selectors cfg)
    \<and> click_node D c s3 = (None, s4)
    \<and> s' = sleep D (actionDelay cfg) s4
    \<and> clicked s' = clicked s @ [d, c]\<close>
proof -
  let ?p1 = "query_probe D (deleteButton (selectors cfg))"
  let ?p2 = "confirm_probe D (confirmationButtonText (selectors cfg))"
  obtain r1 s1 where w1: \<open>waitUntil D ?p1 ''main "Move to trash" button'' (timeout cfg) s = (r1, s1)\<close>
    by (cases \<open>waitUntil D ?p1 ''main "Move to trash" button'' (timeout cfg) s\<close>)
  from ok w1 obtain v1 where r1: "r1 = Inr v1"
    by (cases r1) (auto simp: executeDeletion_def)
  from waitUntil_result(4) [OF w1 r1] have v1: "v1 = ?p1 (page s1)" "satisfied v1" by auto
  then obtain d where d: "v1 = JNode d" "querySelector D (deleteButton (selectors cfg)) (page s1) = Some d"
    using query_probe_node [of D "deleteButton (selectors cfg)" "page s1"] by auto
  obtain t1 s2 where k1: "click_node D d s1 = (t1, s2)"
    by (cases "click_node D d s1")
  from ok w1 r1 d k1 have t1: "t1 = None"
    by (cases t1) (auto simp: executeDeletion_def)
  obtain r2 s3 where w2: \<open>waitUntil D ?p2 ''confirmation "Move to trash" button'' (timeout cfg) s2 = (r2, s3)\<close>
    by (cases \<open>waitUntil D ?p2 ''confirmation "Move to trash" button'' (timeout cfg) s2\<close>)
  from ok w1 r1 d k1 t1 w2 obtain v2 where r2: "r2 = Inr v2"
    by (cases r2) (auto simp: executeDeletion_def)
  from waitUntil_result(4) [OF w2 r2] have v2: "v2 = ?p2 (page s3)" "satisfied v2" by auto
  then obtain c where c: "v2 = JNode c" "c \<in> set (querySelectorAll D ''button'' (page s3))"
      "textContent D (page s3) c = confirmationButtonText (selectors cfg)"
    using confirm_probe_node [of D "confirmationButtonText (selectors cfg)" "page s3"] by auto
  obtain t2 s4 where k2: "click_node D c s3 = (t2, s4)"
    by (cases "click_node D c s3")
  from ok w1 r1 d k1 t1 w2 r2 c k2 have t2: "t2 = None"
    by (cases t2) (auto simp: executeDeletion_def)
  from ok w1 r1 d k1 t1 w2 r2 c k2 t2 have s': "s' = sleep D (actionDelay cfg) s4"
    by (simp add: executeDeletion_def)
  have "clicked s' = clicked s @ [d, c]"
    using s' clicked_click_node [OF k2] clicked_click_node [OF k1]
      waitUntil_result(1) [OF w1] waitUntil_result(1) [OF w2]
    by (simp add: clicked_sleep)
  with w1 r1 d k1 t1 w2 r2 c k2 t2 s' show ?thesis by blast
qed

lemma executeDeletion_no_delete_button:
  assumes "\<forall>j. 0 < j \<and> pollInterval * j \<le> timeout cfg \<longrightarrow>
             querySelector D (deleteButton (selectors cfg)) (page (after_ticks D j s)) = None"
  shows \<open>executeDeletion cfg D s =
           (Inl (Error (timeout_message ''main "Move to trash" button'' (timeout cfg))),
            after_ticks D (timeout cfg div pollInterval + 1) s)\<close>
proof -
  have \<open>waitUntil D (query_probe D (deleteButton (selectors cfg)))
          ''main "Move to trash" button'' (timeout cfg) s =
        (Inl (Error (timeout_message ''main "Move to trash" button'' (timeout cfg))),
         after_ticks D (timeout cfg div pollInterval + 1) s)\<close>
    by (rule waitUntil_rejects) (use assms in \<open>simp add: query_probe_def\<close>)
  then show ?thesis by (simp add: executeDeletion_def)
qed

lemma executeDeletion_no_confirm_button:
  assumes w1: \<open>waitUntil D (query_probe D (deleteButton (selectors cfg)))
          ''main "Move to trash" button'' (timeout cfg) s = (Inr (JNode d), s1)\<close>
    and k1: "click_node D d s1 = (None, s2)"
    and never: "\<forall>j. 0 < j \<and> pollInterval * j \<le> timeout cfg \<longrightarrow>
             (\<forall>b\<in>set (querySelectorAll D ''button'' (page (after_ticks D j s2))).
                textContent D (page (after_ticks D j s2)) b \<noteq> confirmationButtonText (selectors cfg))"
  shows \<open>executeDeletion cfg D s =
           (Inl (Error (timeout_message ''confirmation "Move to trash" button'' (timeout cfg))),
            after_ticks D (timeout cfg div pollInterval + 1) s2)\<close>
proof -
  have un: "confirm_probe D (confirmationButtonText (selectors cfg)) (page (after_ticks D j s2)) = JUndefined"
    if "0 < j \<and> pollInterval * j \<le> timeout cfg" for j
  proof -
    have "find (\<lambda>b. textContent D (page (after_ticks D j s2)) b = confirmationButtonText (selectors cfg))
            (querySelectorAll D ''button'' (page (after_ticks D j s2))) = None"
      using never that by (simp add: find_None_iff)
    then show ?thesis by (simp add: confirm_probe_def)
  qed
  have \<open>waitUntil D (confirm_probe D (confirmationButtonText (selectors cfg)))
          ''confirmation "Move to trash" button'' (timeout cfg) s2 =
        (Inl (Error (timeout_message ''confirmation "Move to trash" button'' (timeout cfg))),
         after_ticks D (timeout cfg div pollInterval + 1) s2)\<close>
    by (rule waitUntil_rejects) (simp add: un)
  with w1 k1 show ?thesis by (simp add: executeDeletion_def)
qed

lemma timeout_30: "seconds_text 30000 = ''30''"
  by (simp add: seconds_text_def digit_char_def)

lemma timeout_5: "seconds_text 5000 = ''5''"
  by (simp add: seconds_text_def digit_char_def)

lemma CONFIG_simps [simp]:
  "timeout CONFIG = 30000" "actionDelay CONFIG = 1000" "stallLimit CONFIG = 5"
  by (simp_all add: CONFIG_def)

lemma sim_dom_fields:
  "querySelector sim_dom = sim_querySelector"
  "querySelectorAll sim_dom = sim_querySelectorAll"
  "textContent sim_dom = sim_textContent"
  "click sim_dom = sim_click"
  "elapse sim_dom = (\<lambda>ms w. w)"
  by (simp_all add: sim_dom_def)

subsection \<open>Selecting\<close>

lemma select_all_clicked:
  "clicked (select_all D boxes s) = clicked s @ boxes \<and> clock (select_all D boxes s) = clock s"
proof (induction boxes arbitrary: s)
  case Nil
  then show ?case by simp
next
  case (Cons box boxes)
  obtain t s' where k: "click_node D box s = (t, s')"
    by (cases "click_node D box s")
  from clicked_click_node [OF k] Cons.IH [of s'] k show ?case by simp
qed

lemma select_all_fold:
  "select_all D boxes s =
     s\<lparr>page := foldl (\<lambda>w box. snd (click D box w)) (page s) boxes,
       clicked := clicked s @ boxes\<rparr>"
proof (induction boxes arbitrary: s)
  case Nil
  then show ?case by simp
next
  case (Cons box boxes)
  show ?case
    by (simp add: Cons.IH click_node_def split: prod.splits)
qed

lemma select_all_append:
  "select_all D (pre @ post) s = select_all D post (select_all D pre s)"
  by (induction pre arbitrary: s) (simp_all split: prod.splits)

lemma select_all_after_throw:
  "select_all D (pre @ box # post) s =
     select_all D post (snd (click_node D box (select_all D pre s)))"
  by (simp add: select_all_append split: prod.splits)

lemma seek_and_select_found:
  assumes "waitUntil D (query_probe D (photoContainer (selectors cfg)))
             ''main photo container'' (timeout cfg) s = (Inr found, s1)"
    and "waitUntil D (query_all_probe D (checkbox (selectors cfg)))
             ''any selectable photo'' (timeout cfg) s1 = (Inr (JList boxes), s2)"
  shows "seek_and_select cfg D s = (Inr boxes, select_all D boxes s2)"
  using assms by (simp add: seek_and_select_def)

lemma seek_and_select_nonempty:
  assumes "seek_and_select cfg D s = (Inr boxes, s3)"
  shows "boxes \<noteq> []"
proof -
  let ?p1 = "query_probe D (photoContainer (selectors cfg))"
  let ?p2 = "query_all_probe D (checkbox (selectors cfg))"
  obtain r1 s1 where w1: "waitUntil D ?p1 ''main photo container'' (timeout cfg) s = (r1, s1)"
    by (cases "waitUntil D ?p1 ''main photo container'' (timeout cfg) s")
  from assms w1 obtain v1 where r1: "r1 = Inr v1"
    by (cases r1) (auto simp: seek_and_select_def)
  obtain r2 s2 where w2: "waitUntil D ?p2 ''any selectable photo'' (timeout cfg) s1 = (r2, s2)"
    by (cases "waitUntil D ?p2 ''any selectable photo'' (timeout cfg) s1")
  from assms w1 r1 w2 obtain v2 where r2: "r2 = Inr v2"
    by (cases r2) (auto simp: seek_and_select_def)
  from waitUntil_result(4) [OF w2 r2] have v2: "satisfied v2" by blast
  from assms w1 r1 w2 r2 have "v2 = JList boxes"
    by (cases v2) (auto simp: seek_and_select_def)
  with v2 show ?thesis by simp
qed

lemma delete_batch_positive:
  assumes "delete_batch cfg D s = (Inr before, s5)"
  shows "0 < before"
proof -
  obtain r3 s3 where ss: "seek_and_select cfg D s = (r3, s3)"
    by (cases "seek_and_select cfg D s")
  from assms ss obtain boxes where r3: "r3 = Inr boxes"
    by (cases r3) (auto simp: delete_batch_def)
  from assms ss r3 have "before = length boxes"
    by (auto simp: delete_batch_def Let_def split: prod.splits sum.splits)
  with seek_and_select_nonempty [OF ss [unfolded r3]] show ?thesis by simp
qed

lemma exec_sim_page:
  assumes cfg: "selectors cfg = selectors CONFIG" "pollInterval \<le> timeout cfg"
    and cs: "checked (page s) \<noteq> []"
  shows "executeDeletion cfg sim_dom s =
           (Inr (),
            s\<lparr>clock := clock s + 2 * pollInterval + actionDelay cfg,
              page := (page s)\<lparr>batches := tl (batches (page s)), checked := [], dialog := False\<rparr>,
              clicked := clicked s @ [TrashButton, ConfirmButton]\<rparr>)"
proof -
  let ?s1 = "s\<lparr>clock := clock s + pollInterval\<rparr>"
  let ?s2 = "?s1\<lparr>page := (page s)\<lparr>dialog := True\<rparr>, clicked := clicked s @ [TrashButton]\<rparr>"
  let ?s3 = "?s2\<lparr>clock := clock ?s2 + pollInterval\<rparr>"
  let ?s4 = "?s3\<lparr>page := (page s)\<lparr>batches := tl (batches (page s)), checked := [], dialog := False\<rparr>,
                 clicked := clicked ?s3 @ [ConfirmButton]\<rparr>"
  have c: "query_probe sim_dom (deleteButton (selectors cfg)) (page s) = JNode TrashButton"
    using cfg cs by (simp add: query_probe_def sim_dom_fields sim_querySelector_def CONFIG_def)
  have w1: \<open>waitUntil sim_dom (query_probe sim_dom (deleteButton (selectors cfg)))
               ''main "Move to trash" button'' (timeout cfg) s = (Inr (JNode TrashButton), ?s1)\<close>
    using sim_wait_found [of "query_probe sim_dom (deleteButton (selectors cfg))" s "timeout cfg"] c cfg
    by simp
  have k1: "click_value sim_dom (JNode TrashButton) ?s1 = (None, ?s2)"
    using cs by (simp add: click_node_def sim_dom_fields sim_click_def)
  have q: "confirm_probe sim_dom (confirmationButtonText (selectors cfg)) (page ?s2) = JNode ConfirmButton"
    using cfg cs
    by (simp add: confirm_probe_def sim_dom_fields sim_querySelectorAll_def sim_textContent_def CONFIG_def)
  have w2: \<open>waitUntil sim_dom (confirm_probe sim_dom (confirmationButtonText (selectors cfg)))
               ''confirmation "Move to trash" button'' (timeout cfg) ?s2 =
             (Inr (JNode ConfirmButton), ?s3)\<close>
    using sim_wait_found [of "confirm_probe sim_dom (confirmationButtonText (selectors cfg))" ?s2 "timeout cfg"] q cfg
    by simp
  have k2: "click_value sim_dom (JNode ConfirmButton) ?s3 = (None, ?s4)"
    by (simp add: click_node_def sim_dom_fields sim_click_def)
  show ?thesis
    unfolding executeDeletion_def w1 using k1 w2 k2
    by (simp add: sleep_sim)
qed

lemma upt_3: "[0..<3] = [0, 1, 2]"
  by (simp add: upt_rec)

subsection \<open>The loop of the stall-detection script\<close>

lemma loop_head_run:
  "loop_head cfg D n rs s = Some (rs', s') \<Longrightarrow>
     run_loop_stall cfg D rs s = run_loop_stall cfg D rs' s'"
proof (induction n arbitrary: rs s)
  case 0
  then show ?case by simp
next
  case (Suc n)
  obtain r s1 where b: "try_body_stall cfg D rs s = (r, s1)"
    by (cases "try_body_stall cfg D rs s")
  from Suc.prems b obtain rs1 where r: "r = Inr rs1"
    by (cases r) auto
  from Suc.prems b r have "loop_head cfg D n rs1 s1 = Some (rs', s')" by simp
  then have "run_loop_stall cfg D rs1 s1 = run_loop_stall cfg D rs' s'" by (rule Suc.IH)
  then show ?case
    by (subst run_loop_stall.simps) (simp add: b r)
qed

lemma loop_head_add:
  "loop_head cfg D (n + m) rs s =
     (case loop_head cfg D n rs s of None \<Rightarrow> None | Some (rs', s') \<Rightarrow> loop_head cfg D m rs' s')"
proof (induction n arbitrary: rs s)
  case 0
  then show ?case by simp
next
  case (Suc n)
  show ?case
  proof (cases "try_body_stall cfg D rs s")
    case (Pair r s1)
    then show ?thesis using Suc.IH by (cases r) simp_all
  qed
qed

lemma account_counter:
  "account cfg rs before after = Inr rs' \<Longrightarrow> 0 < stallLimit cfg \<Longrightarrow>
     stallCounter rs' < stallLimit cfg"
  by (auto simp: account_def Let_def split: if_splits)

lemma try_body_stall_counter:
  assumes "try_body_stall cfg D rs s = (Inr rs', s')" and "0 < stallLimit cfg"
  shows "stallCounter rs' < stallLimit cfg"
  using assms account_counter
  by (auto simp: try_body_stall_def split: prod.splits sum.splits)

lemma loop_head_counter:
  assumes "loop_head cfg D n rs s = Some (rs', s')" and "0 < stallLimit cfg"
    and "stallCounter rs < stallLimit cfg"
  shows "stallCounter rs' < stallLimit cfg"
  using assms
proof (induction n arbitrary: rs s)
  case 0
  then show ?case by simp
next
  case (Suc n)
  obtain r s1 where b: "try_body_stall cfg D rs s = (r, s1)"
    by (cases "try_body_stall cfg D rs s")
  from Suc.prems(1) b obtain rs1 where r: "r = Inr rs1"
    by (cases r) auto
  from Suc.prems(1) b r have h: "loop_head cfg D n rs1 s1 = Some (rs', s')" by simp
  have "stallCounter rs1 < stallLimit cfg"
    using try_body_stall_counter [OF b [unfolded r] Suc.prems(2)] .
  with Suc.IH [OF h Suc.prems(2)] show ?case .
qed

lemma stalled_turn:
  assumes "stalled cfg D s"
  shows "\<exists>s'. try_body_stall cfg D rs s =
           (if stallLimit cfg \<le> stallCounter rs + 1 then Inl (Error stall_message)
            else Inr (rs\<lparr>stallCounter := stallCounter rs + 1\<rparr>), s')"
  using assms
  by (auto simp: stalled_def try_body_stall_def account_def Let_def split: prod.splits sum.splits)

lemma stalled_streak:
  assumes "\<forall>j rs' s'. j < m \<and> loop_head cfg D j rs s = Some (rs', s') \<longrightarrow> stalled cfg D s'"
    and "stallCounter rs + m < stallLimit cfg"
  shows "\<exists>s'. loop_head cfg D m rs s = Some (rs\<lparr>stallCounter := stallCounter rs + m\<rparr>, s')"
  using assms
proof (induction m arbitrary: rs s)
  case 0
  then show ?case by simp
next
  case (Suc m)
  have "stalled cfg D s" using Suc.prems(1) [rule_format, of 0 rs s] by simp
  then obtain s1 where b: "try_body_stall cfg D rs s = (Inr (rs\<lparr>stallCounter := stallCounter rs + 1\<rparr>), s1)"
    using stalled_turn [of cfg D s rs] Suc.prems(2) by auto
  let ?rs1 = "rs\<lparr>stallCounter := stallCounter rs + 1\<rparr>"
  have h: "\<forall>j rs' s'. j < m \<and> loop_head cfg D j ?rs1 s1 = Some (rs', s') \<longrightarrow> stalled cfg D s'"
  proof (intro allI impI)
    fix j rs' s' assume a: "j < m \<and> loop_head cfg D j ?rs1 s1 = Some (rs', s')"
    then have "Suc j < Suc m \<and> loop_head cfg D (Suc j) rs s = Some (rs', s')"
      using b by simp
    with Suc.prems(1) show "stalled cfg D s'" by blast
  qed
  have "stallCounter ?rs1 + m < stallLimit cfg" using Suc.prems(2) by simp
  from Suc.IH [OF h this] obtain s' where
    "loop_head cfg D m ?rs1 s1 = Some (?rs1\<lparr>stallCounter := stallCounter ?rs1 + m\<rparr>, s')" by blast
  then show ?case using b by simp
qed

lemma stall_limit_halts:
  assumes S: "0 < stallLimit cfg"
    and head: "loop_head cfg D n rs0 s0 = Some (rs, s)"
    and zero: "stallCounter rs = 0"
    and st: "\<forall>j rs' s'. j < stallLimit cfg \<and> loop_head cfg D j rs s = Some (rs', s') \<longrightarrow> stalled cfg D s'"
  shows "loop_head cfg D (stallLimit cfg - 1) rs s \<noteq> None
         \<and> loop_head cfg D (stallLimit cfg) rs s = None
         \<and> map_option fst (run_loop_stall cfg D rs0 s0) =
             Some \<lparr>outcome = Halted stall_message, reported = totalDeleted rs\<rparr>"
proof -
  let ?m = "stallLimit cfg - Suc 0"
  let ?rsm = "rs\<lparr>stallCounter := stallCounter rs + ?m\<rparr>"
  have "\<forall>j rs' s'. j < ?m \<and> loop_head cfg D j rs s = Some (rs', s') \<longrightarrow> stalled cfg D s'"
  proof (intro allI impI)
    fix j rs' s' assume "j < ?m \<and> loop_head cfg D j rs s = Some (rs', s')"
    then have "j < stallLimit cfg \<and> loop_head cfg D j rs s = Some (rs', s')" by auto
    with st show "stalled cfg D s'" by blast
  qed
  moreover have "stallCounter rs + ?m < stallLimit cfg" using S zero by simp
  ultimately obtain sm where hm: "loop_head cfg D ?m rs s = Some (?rsm, sm)"
    using stalled_streak [of ?m cfg D rs s] by blast
  have "?m < stallLimit cfg" using S by simp
  with st hm have "stalled cfg D sm" by blast
  then obtain s' where b: "try_body_stall cfg D ?rsm sm = (Inl (Error stall_message), s')"
    using stalled_turn [of cfg D sm ?rsm] S zero by auto
  have "loop_head cfg D (?m + Suc 0) rs s = loop_head cfg D (Suc 0) ?rsm sm"
    by (simp only: loop_head_add hm option.case prod.case)
  also have "\<dots> = None" using b by simp
  finally have "loop_head cfg D (?m + Suc 0) rs s = None" .
  then have 1: "loop_head cfg D (stallLimit cfg) rs s = None" using S by simp
  have "run_loop_stall cfg D rs0 s0 = run_loop_stall cfg D rs s"
    by (rule loop_head_run [OF head])
  also have "\<dots> = run_loop_stall cfg D ?rsm sm"
    by (rule loop_head_run [OF hm])
  also have "\<dots> = Some (\<lparr>outcome = Halted stall_message, reported = totalDeleted rs\<rparr>, s')"
    by (subst run_loop_stall.simps) (simp add: b stall_message_halts)
  finally show ?thesis using 1 hm by simp
qed

lemma stalled_sim:
  assumes cfg: "selectors cfg = selectors CONFIG" "pollInterval \<le> timeout cfg"
    and pg: "page s = sim_page True (b # bs)" and b: "0 < b"
  shows "stalled cfg sim_dom s = (b \<le> on_screen (sim_page True bs))"
proof -
  obtain s5 where s5: "delete_batch cfg sim_dom s = (Inr b, s5)" "page s5 = sim_page True bs"
    using delete_batch_sim [OF cfg pg b] by blast
  obtain s6 where s6: "count_after cfg sim_dom s5 = (on_screen (sim_page True bs), s6)"
    using count_after_sim [OF cfg(1) s5(2)] by blast
  show ?thesis by (simp add: stalled_def s5 s6)
qed

subsection \<open>The outer catch\<close>

lemma on_error_selectable: "on_error (Error (timeout_message ''any selectable photo'' limit)) = Done"
  by (simp add: on_error_def timeout_message_includes)

lemma on_error_container:
  "on_error (Error (timeout_message ''main photo container'' limit)) =
     Halted (timeout_message ''main photo container'' limit)"
  using timeout_message_other [of "''main photo container''" limit]
  by (simp add: on_error_def)

lemma on_error_delete_button:
  \<open>on_error (Error (timeout_message ''main "Move to trash" button'' limit)) =
     Halted (timeout_message ''main "Move to trash" button'' limit)\<close>
  using timeout_message_other [of \<open>''main "Move to trash" button''\<close> limit]
  by (simp add: on_error_def)

lemma on_error_confirm_button:
  \<open>on_error (Error (timeout_message ''confirmation "Move to trash" button'' limit)) =
     Halted (timeout_message ''confirmation "Move to trash" button'' limit)\<close>
  using timeout_message_other [of \<open>''confirmation "Move to trash" button''\<close> limit]
  by (simp add: on_error_def)

lemma run_loop_stall_error:
  "try_body_stall cfg D rs s = (Inl e, s') \<Longrightarrow>
     run_loop_stall cfg D rs s = Some (\<lparr>outcome = on_error e, reported = totalDeleted rs\<rparr>, s')"
  by (subst run_loop_stall.simps) simp

lemma run_loop_basic_error:
  "try_body_basic cfg D t s = ((Some e, t'), s') \<Longrightarrow>
     run_loop_basic cfg D t s = Some (\<lparr>outcome = Done, reported = t'\<rparr>, s')"
  by (subst run_loop_basic.simps) simp

lemma catch_container_timeout:
  assumes "waitUntil D (query_probe D (photoContainer (selectors cfg)))
             ''main photo container'' (timeout cfg) s = (Inl e, s1)"
  shows "run_loop_stall cfg D rs s =
           Some (\<lparr>outcome = Halted (timeout_message ''main photo container'' (timeout cfg)),
                  reported = totalDeleted rs\<rparr>, s1)"
    and "run_loop_basic cfg D t s = Some (\<lparr>outcome = Done, reported = t\<rparr>, s1)"
proof -
  have e: "e = Error (timeout_message ''main photo container'' (timeout cfg))"
    by (rule waitUntil_result(3) [OF assms refl])
  have "seek_and_select cfg D s = (Inl e, s1)"
    using assms by (simp add: seek_and_select_def)
  then have "try_body_stall cfg D rs s = (Inl e, s1)" "try_body_basic cfg D t s = ((Some e, t), s1)"
    by (simp_all add: try_body_stall_def delete_batch_def try_body_basic_def)
  then show "run_loop_stall cfg D rs s =
           Some (\<lparr>outcome = Halted (timeout_message ''main photo container'' (timeout cfg)),
                  reported = totalDeleted rs\<rparr>, s1)"
    and "run_loop_basic cfg D t s = Some (\<lparr>outcome = Done, reported = t\<rparr>, s1)"
    using run_loop_stall_error [of cfg D rs s e s1] run_loop_basic_error [of cfg D t s e t s1]
    by (simp_all add: e on_error_container)
qed

lemma catch_selectable_timeout:
  assumes "waitUntil D (query_probe D (photoContainer (selectors cfg)))
             ''main photo container'' (timeout cfg) s = (Inr found, s1)"
    and "waitUntil D (query_all_probe D (checkbox (selectors cfg)))
             ''any selectable photo'' (timeout cfg) s1 = (Inl e, s2)"
  shows "run_loop_stall cfg D rs s =
           Some (\<lparr>outcome = Done, reported = totalDeleted rs\<rparr>, s2)"
    and "run_loop_basic cfg D t s = Some (\<lparr>outcome = Done, reported = t\<rparr>, s2)"
proof -
  have e: "e = Error (timeout_message ''any selectable photo'' (timeout cfg))"
    by (rule waitUntil_result(3) [OF assms(2) refl])
  have "seek_and_select cfg D s = (Inl e, s2)"
    using assms by (simp add: seek_and_select_def)
  then have "try_body_stall cfg D rs s = (Inl e, s2)" "try_body_basic cfg D t s = ((Some e, t), s2)"
    by (simp_all add: try_body_stall_def delete_batch_def try_body_basic_def)
  then show "run_loop_stall cfg D rs s =
           Some (\<lparr>outcome = Done, reported = totalDeleted rs\<rparr>, s2)"
    and "run_loop_basic cfg D t s = Some (\<lparr>outcome = Done, reported = t\<rparr>, s2)"
    using run_loop_stall_error [of cfg D rs s e s2] run_loop_basic_error [of cfg D t s e t s2]
    by (simp_all add: e on_error_selectable)
qed

lemma catch_deletion_timeout:
  assumes "seek_and_select cfg D s = (Inr boxes, s3)"
    and "executeDeletion cfg D (sleep D 500 s3) = (Inl (Error (timeout_message d (timeout cfg))), s5)"
    and \<open>d = ''main "Move to trash" button'' \<or> d = ''confirmation "Move to trash" button''\<close>
  shows "run_loop_stall cfg D rs s =
           Some (\<lparr>outcome = Halted (timeout_message d (timeout cfg)),
                  reported = totalDeleted rs\<rparr>, s5)"
    and "run_loop_basic cfg D t s = Some (\<lparr>outcome = Done, reported = t + length boxes\<rparr>, s5)"
proof -
  let ?e = "Error (timeout_message d (timeout cfg))"
  have h: "on_error ?e = Halted (timeout_message d (timeout cfg))"
    using assms(3) on_error_delete_button on_error_confirm_button by blast
  have "try_body_stall cfg D rs s = (Inl ?e, s5)"
    "try_body_basic cfg D t s = ((Some ?e, t + length boxes), s5)"
    using assms(1,2) by (simp_all add: try_body_stall_def delete_batch_def try_body_basic_def Let_def)
  then show "run_loop_stall cfg D rs s =
           Some (\<lparr>outcome = Halted (timeout_message d (timeout cfg)),
                  reported = totalDeleted rs\<rparr>, s5)"
    and "run_loop_basic cfg D t s = Some (\<lparr>outcome = Done, reported = t + length boxes\<rparr>, s5)"
    using run_loop_stall_error [of cfg D rs s ?e s5]
      run_loop_basic_error [of cfg D t s ?e "t + length boxes" s5]
    by (simp_all add: h)
qed

lemma msg_container_30:
  "timeout_message ''main photo container'' 30000 =
     ''Timeout: Could not find main photo container after 30 seconds.''"
  by (simp add: timeout_message_def timeout_30)

lemma msg_delete_30:
  \<open>timeout_message ''main "Move to trash" button'' 30000 =
     ''Timeout: Could not find main "Move to trash" button after 30 seconds.''\<close>
  by (simp add: timeout_message_def timeout_30)

lemma sim_no_container_wait:
  fixes s :: "(sim, sim_elem) state"
  assumes "page s = sim_page False bs"
  shows "waitUntil sim_dom (query_probe sim_dom (photoContainer (selectors CONFIG)))
             ''main photo container'' (timeout CONFIG) s =
           (Inl (Error (timeout_message ''main photo container'' 30000)),
            s\<lparr>clock := clock s + 30250\<rparr>)"
proof -
  have "waitUntil sim_dom (query_probe sim_dom (photoContainer (selectors CONFIG)))
             ''main photo container'' (timeout CONFIG) s =
           (Inl (Error (timeout_message ''main photo container'' (timeout CONFIG))),
            s\<lparr>clock := clock s + pollInterval * (timeout CONFIG div pollInterval + 1)\<rparr>)"
    by (rule sim_wait_timeout)
       (simp add: assms query_probe_def sim_dom_fields sim_querySelector_def sim_page_def)
  then show ?thesis by (simp add: pollInterval_def)
qed

lemma sim_container_wait:
  fixes s :: "(sim, sim_elem) state"
  assumes "container (page s)"
  shows "waitUntil sim_dom (query_probe sim_dom (photoContainer (selectors CONFIG)))
             ''main photo container'' (timeout CONFIG) s =
           (Inr (JNode Container), s\<lparr>clock := clock s + 250\<rparr>)"
proof -
  have "waitUntil sim_dom (query_probe sim_dom (photoContainer (selectors CONFIG)))
             ''main photo container'' (timeout CONFIG) s =
           (Inr (query_probe sim_dom (photoContainer (selectors CONFIG)) (page s)),
            s\<lparr>clock := clock s + pollInterval\<rparr>)"
    by (rule sim_wait_found)
       (simp_all add: assms query_probe_def sim_dom_fields sim_querySelector_def pollInterval_def)
  then show ?thesis
    by (simp add: assms query_probe_def sim_dom_fields sim_querySelector_def pollInterval_def)
qed

lemma sim_no_selectable_wait:
  fixes s :: "(sim, sim_elem) state"
  assumes "on_screen (page s) = 0"
  shows "waitUntil sim_dom (query_all_probe sim_dom (checkbox (selectors CONFIG)))
             ''any selectable photo'' (timeout CONFIG) s =
           (Inl (Error (timeout_message ''any selectable photo'' 30000)),
            s\<lparr>clock := clock s + 30250\<rparr>)"
proof -
  have "waitUntil sim_dom (query_all_probe sim_dom (checkbox (selectors CONFIG)))
             ''any selectable photo'' (timeout CONFIG) s =
           (Inl (Error (timeout_message ''any selectable photo'' (timeout CONFIG))),
            s\<lparr>clock := clock s + pollInterval * (timeout CONFIG div pollInterval + 1)\<rparr>)"
    by (rule sim_wait_timeout)
       (simp add: assms query_all_probe_def sim_dom_fields sim_querySelectorAll_def)
  then show ?thesis by (simp add: pollInterval_def)
qed

lemma sim_all_detached_seek:
  "seek_and_select CONFIG sim_dom (start ((sim_page True [2])\<lparr>detached := [0, 1]\<rparr>)) =
     (Inr [Checkbox 0, Checkbox 1],
      \<lparr>clock = 500, page = (sim_page True [2])\<lparr>detached := [0, 1]\<rparr>, clicked = [Checkbox 0, Checkbox 1]\<rparr>)"
proof -
  let ?w = "(sim_page True [2])\<lparr>detached := [0, 1]\<rparr>"
  let ?s = "start ?w :: (sim, sim_elem) state"
  let ?s1 = "?s\<lparr>clock := clock ?s + 250\<rparr>"
  have w1: "waitUntil sim_dom (query_probe sim_dom (photoContainer (selectors CONFIG)))
             ''main photo container'' (timeout CONFIG) ?s = (Inr (JNode Container), ?s1)"
    by (rule sim_container_wait) (simp add: start_def sim_page_def)
  have q: "query_all_probe sim_dom (checkbox (selectors CONFIG)) (page ?s1) = JList [Checkbox 0, Checkbox 1]"
    by (simp add: query_all_probe_def sim_dom_fields sim_querySelectorAll_def sim_page_def
                  on_screen_def start_def upt_rec)
  have "waitUntil sim_dom (query_all_probe sim_dom (checkbox (selectors CONFIG)))
             ''any selectable photo'' (timeout CONFIG) ?s1 =
          (Inr (query_all_probe sim_dom (checkbox (selectors CONFIG)) (page ?s1)),
           ?s1\<lparr>clock := clock ?s1 + pollInterval\<rparr>)"
  proof (rule sim_wait_found)
    show "satisfied (query_all_probe sim_dom (checkbox (selectors CONFIG)) (page ?s1))"
      by (simp only: q) simp
    show "pollInterval \<le> timeout CONFIG" by (simp add: pollInterval_def)
  qed
  then have w2: "waitUntil sim_dom (query_all_probe sim_dom (checkbox (selectors CONFIG)))
             ''any selectable photo'' (timeout CONFIG) ?s1 =
          (Inr (JList [Checkbox 0, Checkbox 1]), ?s1\<lparr>clock := clock ?s1 + pollInterval\<rparr>)"
    by (simp only: q)
  show ?thesis
    unfolding seek_and_select_def w1 using w2
    by (simp add: click_node_def sim_dom_fields sim_click_def sim_page_def start_def pollInterval_def)
qed

lemma sim_all_detached_deletion:
  \<open>executeDeletion CONFIG sim_dom
      (sleep sim_dom 500
         \<lparr>clock = 500, page = (sim_page True [2])\<lparr>detached := [0, 1]\<rparr>, clicked = [Checkbox 0, Checkbox 1]\<rparr>) =
     (Inl (Error (timeout_message ''main "Move to trash" button'' (timeout CONFIG))),
      \<lparr>clock = 31250, page = (sim_page True [2])\<lparr>detached := [0, 1]\<rparr>, clicked = [Checkbox 0, Checkbox 1]\<rparr>)\<close>
proof -
  let ?s4 = "sleep sim_dom 500
         \<lparr>clock = 500, page = (sim_page True [2])\<lparr>detached := [0, 1]\<rparr>, clicked = [Checkbox 0, Checkbox 1]\<rparr>"
  have \<open>executeDeletion CONFIG sim_dom ?s4 =
     (Inl (Error (timeout_message ''main "Move to trash" button'' (timeout CONFIG))),
      after_ticks sim_dom (timeout CONFIG div pollInterval + 1) ?s4)\<close>
    by (rule executeDeletion_no_delete_button)
       (simp add: after_ticks_sim sleep_sim sim_dom_fields sim_querySelector_def sim_page_def CONFIG_def)
  then show ?thesis
    by (simp add: after_ticks_sim sleep_sim pollInterval_def)
qed

subsection \<open>Pages on which nothing selectable shows\<close>

lemma after_ticks_add: "after_ticks D j (after_ticks D k s) = after_ticks D (k + j) s"
  by (simp add: after_ticks_def funpow_add add.commute)

lemma wait_loop_ticks:
  "wait_loop D condition description limit startTime s = (r, s') \<Longrightarrow>
     \<exists>k. s' = after_ticks D k s"
proof (induction D condition description limit startTime s rule: wait_loop.induct)
  case (1 D condition description limit startTime s)
  let ?s' = "sleep D pollInterval s"
  have one: "?s' = after_ticks D 1 s" by (simp add: after_ticks_def)
  show ?case
  proof (cases "clock ?s' - startTime > limit \<or> satisfied (condition (page ?s'))")
    case True
    with "1.prems" have "s' = ?s'"
      by (subst (asm) wait_loop.simps) (auto simp: Let_def split: if_splits)
    with one show ?thesis by blast
  next
    case False
    then have le: "\<not> clock ?s' - startTime > limit" and ns: "\<not> satisfied (condition (page ?s'))"
      by auto
    with "1.prems" have "wait_loop D condition description limit startTime ?s' = (r, s')"
      by (subst (asm) wait_loop.simps) (simp add: Let_def)
    with "1.IH" [OF refl le refl ns] obtain k where "s' = after_ticks D k ?s'" by blast
    then have "s' = after_ticks D (1 + k) s" by (simp add: one after_ticks_add)
    then show ?thesis by blast
  qed
qed

lemma waitUntil_ticks:
  "waitUntil D condition description limit s = (r, s') \<Longrightarrow> \<exists>k. s' = after_ticks D k s"
  unfolding waitUntil_def by (rule wait_loop_ticks)

lemma waitUntil_appears:
  assumes "0 < k" and "pollInterval * k \<le> limit"
    and "satisfied (condition (page (after_ticks D k s)))"
  shows "\<exists>v s'. waitUntil D condition description limit s = (Inr v, s')"
proof -
  let ?P = "\<lambda>j. 0 < j \<and> satisfied (condition (page (after_ticks D j s)))"
  let ?m = "LEAST j. ?P j"
  have P: "?P k" using assms by simp
  then have m: "?P ?m" by (rule LeastI)
  have le: "?m \<le> k" using P by (rule Least_le)
  have before: "\<forall>j. 0 < j \<and> j < ?m \<longrightarrow> \<not> satisfied (condition (page (after_ticks D j s)))"
    using not_less_Least [of _ ?P] by blast
  have "pollInterval * ?m \<le> pollInterval * k" using le by (rule mult_le_mono2)
  with assms(2) have lim: "pollInterval * ?m \<le> limit" by (rule le_trans [rotated])
  have "waitUntil D condition description limit s =
           (Inr (condition (page (after_ticks D ?m s))), after_ticks D ?m s)"
  proof (rule waitUntil_resolves)
    show "0 < ?m" using m by (rule conjunct1)
    show "\<forall>j. 0 < j \<and> j < ?m \<longrightarrow> \<not> satisfied (condition (page (after_ticks D j s)))"
      by (rule before)
    show "pollInterval * ?m \<le> limit" by (rule lim)
    show "satisfied (condition (page (after_ticks D ?m s)))" using m by (rule conjunct2)
  qed
  then show ?thesis by (intro exI)
qed

lemma no_selectable_basic:
  assumes H: "\<forall>k. querySelectorAll D (checkbox (selectors cfg)) (page (after_ticks D k s)) = []"
  shows "\<exists>s'. run_loop_basic cfg D t s = Some (\<lparr>outcome = Done, reported = t\<rparr>, s')"
proof -
  let ?p1 = "query_probe D (photoContainer (selectors cfg))"
  let ?p2 = "query_all_probe D (checkbox (selectors cfg))"
  obtain r1 s1 where w1: "waitUntil D ?p1 ''main photo container'' (timeout cfg) s = (r1, s1)"
    by (cases "waitUntil D ?p1 ''main photo container'' (timeout cfg) s")
  show ?thesis
  proof (cases r1)
    case (Inl e)
    with w1 catch_container_timeout(2) [of D cfg s e s1 t] show ?thesis by blast
  next
    case (Inr found)
    obtain k1 where k1: "s1 = after_ticks D k1 s"
      using waitUntil_ticks [OF w1] by blast
    have "\<forall>j. 0 < j \<and> pollInterval * j \<le> timeout cfg \<longrightarrow>
             \<not> satisfied (?p2 (page (after_ticks D j s1)))"
      using H by (simp add: k1 after_ticks_add query_all_probe_def)
    then have w2: "waitUntil D ?p2 ''any selectable photo'' (timeout cfg) s1 =
         (Inl (Error (timeout_message ''any selectable photo'' (timeout cfg))),
          after_ticks D (timeout cfg div pollInterval + 1) s1)"
      by (rule waitUntil_rejects)
    from catch_selectable_timeout(2) [OF w1 [unfolded Inr] w2] show ?thesis by blast
  qed
qed

lemma no_selectable_stall:
  assumes H: "\<forall>k. querySelectorAll D (checkbox (selectors cfg)) (page (after_ticks D k s)) = []"
    and w1: "waitUntil D (query_probe D (photoContainer (selectors cfg)))
               ''main photo container'' (timeout cfg) s = (Inr found, s1)"
  shows "\<exists>s'. run_loop_stall cfg D rs s = Some (\<lparr>outcome = Done, reported = totalDeleted rs\<rparr>, s')"
proof -
  let ?p2 = "query_all_probe D (checkbox (selectors cfg))"
  obtain k1 where k1: "s1 = after_ticks D k1 s"
    using waitUntil_ticks [OF w1] by blast
  have "\<forall>j. 0 < j \<and> pollInterval * j \<le> timeout cfg \<longrightarrow>
           \<not> satisfied (?p2 (page (after_ticks D j s1)))"
    using H by (simp add: k1 after_ticks_add query_all_probe_def)
  then have w2: "waitUntil D ?p2 ''any selectable photo'' (timeout cfg) s1 =
       (Inl (Error (timeout_message ''any selectable photo'' (timeout cfg))),
        after_ticks D (timeout cfg div pollInterval + 1) s1)"
    by (rule waitUntil_rejects)
  from catch_selectable_timeout(1) [OF w1 w2] show ?thesis by blast
qed

subsection \<open>The stall-detection script on one batch\<close>

lemma run_stall_sim_empty:
  assumes cfg: "selectors cfg = selectors CONFIG" "pollInterval \<le> timeout cfg"
    and pg: "page s = sim_page True []"
  shows "map_option fst (run_loop_stall cfg sim_dom rs s) =
           Some \<lparr>outcome = Done, reported = totalDeleted rs\<rparr>"
proof -
  obtain s' where "seek_and_select cfg sim_dom s =
           (Inl (Error (timeout_message ''any selectable photo'' (timeout cfg))), s')"
    using seek_sim_empty [OF cfg pg] by blast
  then have "try_body_stall cfg sim_dom rs s =
           (Inl (Error (timeout_message ''any selectable photo'' (timeout cfg))), s')"
    by (simp add: try_body_stall_def delete_batch_def)
  from run_loop_stall_error [OF this] show ?thesis
    by (simp add: on_error_selectable)
qed

lemma run_stall_sim_single:
  assumes cfg: "selectors cfg = selectors CONFIG" "pollInterval \<le> timeout cfg"
    and pg: "page s = sim_page True [b]" and b: "0 < b"
  shows "map_option fst (run_loop_stall cfg sim_dom rs s) =
           Some \<lparr>outcome = Done, reported = totalDeleted rs + b\<rparr>"
proof -
  obtain s1 where s1: "try_body_stall cfg sim_dom rs s =
       (account cfg rs b (on_screen (sim_page True [])), s1)" "page s1 = sim_page True []"
    using try_stall_sim [OF cfg pg b] by blast
  have acc: "account cfg rs b (on_screen (sim_page True [])) =
       Inr \<lparr>totalDeleted = totalDeleted rs + b, stallCounter = 0\<rparr>"
    using b by (simp add: account_def on_screen_def sim_page_def)
  have "run_loop_stall cfg sim_dom rs s =
          run_loop_stall cfg sim_dom \<lparr>totalDeleted = totalDeleted rs + b, stallCounter = 0\<rparr> s1"
    by (subst run_loop_stall.simps) (simp add: s1(1) acc)
  then show ?thesis
    using run_stall_sim_empty [OF cfg s1(2), of "\<lparr>totalDeleted = totalDeleted rs + b, stallCounter = 0\<rparr>"]
    by simp
qed

subsection \<open>The page that takes time to show the next batch\<close>

lemma lazy_dom_fields:
  "querySelector lazy_dom = (\<lambda>sel w. sim_querySelector sel (shown w))"
  "querySelectorAll lazy_dom = (\<lambda>sel w. sim_querySelectorAll sel (shown w))"
  "textContent lazy_dom = (\<lambda>w. sim_textContent (shown w))"
  "click lazy_dom = lazy_click"
  "elapse lazy_dom = (\<lambda>ms w. w\<lparr>pending := pending w - ms\<rparr>)"
  by (simp_all add: lazy_dom_def)

lemma sleep_lazy:
  "sleep lazy_dom ms s =
     s\<lparr>clock := clock s + ms, page := (page s)\<lparr>pending := pending (page s) - ms\<rparr>\<rparr>"
  by (simp add: sleep_def lazy_dom_fields)

lemma after_ticks_lazy:
  "after_ticks lazy_dom k s =
     s\<lparr>clock := clock s + pollInterval * k,
       page := (page s)\<lparr>pending := pending (page s) - pollInterval * k\<rparr>\<rparr>"
proof (induction k arbitrary: s)
  case 0
  then show ?case by (simp add: after_ticks_0)
next
  case (Suc k)
  show ?case
    by (simp add: after_ticks_Suc Suc.IH sleep_lazy algebra_simps)
qed

lemma wait_first_tick:
  assumes "pollInterval \<le> limit"
    and "satisfied (condition (page (sleep D pollInterval s)))"
  shows "waitUntil D condition description limit s =
           (Inr (condition (page (sleep D pollInterval s))), sleep D pollInterval s)"
proof -
  have one: "after_ticks D (Suc 0) s = sleep D pollInterval s"
    by (simp add: after_ticks_def)
  have "waitUntil D condition description limit s =
          (Inr (condition (page (after_ticks D (Suc 0) s))), after_ticks D (Suc 0) s)"
    by (rule waitUntil_resolves) (use assms in \<open>auto simp: one\<close>)
  then show ?thesis by (simp only: one)
qed

lemma lazy_boxes:
  "query_all_probe lazy_dom (checkbox (selectors CONFIG))
      \<lparr>inner = sim_page True bs, latency = d, pending = r\<rparr> =
     JList (if r = 0 then map Checkbox [0..<(case bs of [] \<Rightarrow> 0 | b # bs' \<Rightarrow> b)] else [])"
  by (simp add: query_all_probe_def lazy_dom_fields shown_def sim_querySelectorAll_def
                sim_page_def on_screen_def)

lemma lazy_boxes_wait:
  assumes pg: "page s = \<lparr>inner = sim_page True (b # bs), latency = d, pending = r\<rparr>"
    and b: "0 < b" and lim: "pollInterval \<le> limit"
    and r: "r \<le> pollInterval * (limit div pollInterval)"
  shows "\<exists>s'. waitUntil lazy_dom (query_all_probe lazy_dom (checkbox (selectors CONFIG)))
                 description limit s = (Inr (JList (map Checkbox [0..<b])), s')
              \<and> page s' = \<lparr>inner = sim_page True (b # bs), latency = d, pending = 0\<rparr>
              \<and> clicked s' = clicked s"
proof -
  let ?p = "query_all_probe lazy_dom (checkbox (selectors CONFIG))"
  let ?k = "limit div pollInterval"
  have k: "0 < ?k" using lim by (simp add: pollInterval_def div_greater_zero_iff)
  have "satisfied (?p (page (after_ticks lazy_dom ?k s)))"
    using r b by (simp add: after_ticks_lazy pg lazy_boxes)
  with k obtain v s' where w: "waitUntil lazy_dom ?p description limit s = (Inr v, s')"
    using waitUntil_appears [of ?k limit ?p lazy_dom s description] by auto
  obtain j where j: "s' = after_ticks lazy_dom j s"
    using waitUntil_ticks [OF w] by blast
  have v: "v = ?p (page s')" "satisfied v"
    using waitUntil_result(4) [OF w refl] by auto
  have pg': "page s' = \<lparr>inner = sim_page True (b # bs), latency = d,
                         pending = r - pollInterval * j\<rparr>"
    by (simp add: j after_ticks_lazy pg)
  have z: "r - pollInterval * j = 0"
    using v by (auto simp: pg' lazy_boxes split: if_splits)
  have "v = JList (map Checkbox [0..<b])"
    using v(1) by (simp add: pg' z lazy_boxes)
  moreover have "clicked s' = clicked s"
    using waitUntil_result(1) [OF w] .
  ultimately show ?thesis using w pg' z by simp
qed

lemma lazy_boxes_timeout:
  assumes pg: "page s = \<lparr>inner = sim_page True bs, latency = d, pending = r\<rparr>"
    and no: "bs = [] \<or> pollInterval * (limit div pollInterval) < r"
  shows "waitUntil lazy_dom (query_all_probe lazy_dom (checkbox (selectors CONFIG)))
             description limit s =
           (Inl (Error (timeout_message description limit)),
            after_ticks lazy_dom (limit div pollInterval + 1) s)"
proof (rule waitUntil_rejects, intro allI impI)
  fix j assume j: "0 < j \<and> pollInterval * j \<le> limit"
  then have "j \<le> limit div pollInterval"
    by (simp add: pollInterval_def less_eq_div_iff_mult_less_eq mult.commute)
  then have "pollInterval * j \<le> pollInterval * (limit div pollInterval)"
    by (rule mult_le_mono2)
  with no have "bs = [] \<or> 0 < r - pollInterval * j" by linarith
  then show "\<not> satisfied (query_all_probe lazy_dom (checkbox (selectors CONFIG))
                 (page (after_ticks lazy_dom j s)))"
    by (auto simp: after_ticks_lazy pg lazy_boxes)
qed

lemma select_all_lazy:
  assumes "page s = \<lparr>inner = W, latency = d, pending = 0\<rparr>"
    and "distinct xs" and "set xs \<inter> set (checked W) = {}"
    and "\<forall>x\<in>set xs. x < on_screen W" and "detached W = []"
  shows "select_all lazy_dom (map Checkbox xs) s =
           s\<lparr>page := \<lparr>inner = W\<lparr>checked := checked W @ xs\<rparr>, latency = d, pending = 0\<rparr>,
             clicked := clicked s @ map Checkbox xs\<rparr>"
  using assms
proof (induction xs arbitrary: s W)
  case Nil
  then show ?case by simp
next
  case (Cons x xs)
  let ?W' = "W\<lparr>checked := checked W @ [x]\<rparr>"
  let ?s' = "s\<lparr>page := \<lparr>inner = ?W', latency = d, pending = 0\<rparr>,
               clicked := clicked s @ [Checkbox x]\<rparr>"
  have step: "click_node lazy_dom (Checkbox x) s = (None, ?s')"
    using Cons.prems
    by (auto simp: click_node_def lazy_dom_fields lazy_click_def sim_click_def)
  have "select_all lazy_dom (map Checkbox xs) ?s' =
          ?s'\<lparr>page := \<lparr>inner = ?W'\<lparr>checked := checked ?W' @ xs\<rparr>, latency = d, pending = 0\<rparr>,
             clicked := clicked ?s' @ map Checkbox xs\<rparr>"
    using Cons.prems by (intro Cons.IH) (auto simp: on_screen_def)
  with step show ?case by simp
qed

lemma exec_lazy:
  assumes pg: "page s = \<lparr>inner = W, latency = d, pending = 0\<rparr>" and cs: "checked W \<noteq> []"
  shows "executeDeletion CONFIG lazy_dom s =
           (Inr (),
            s\<lparr>clock := clock s + 1500,
              page := \<lparr>inner = W\<lparr>batches := tl (batches W), checked := [], dialog := False\<rparr>,
                       latency = d, pending = d - 1000\<rparr>,
              clicked := clicked s @ [TrashButton, ConfirmButton]\<rparr>)"
proof -
  let ?p1 = "query_probe lazy_dom (deleteButton (selectors CONFIG))"
  let ?p2 = "confirm_probe lazy_dom (confirmationButtonText (selectors CONFIG))"
  let ?s1 = "s\<lparr>clock := clock s + 250\<rparr>"
  let ?s2 = "?s1\<lparr>page := \<lparr>inner = W\<lparr>dialog := True\<rparr>, latency = d, pending = 0\<rparr>,
                 clicked := clicked s @ [TrashButton]\<rparr>"
  let ?s3 = "?s2\<lparr>clock := clock ?s2 + 250\<rparr>"
  let ?s4 = "?s3\<lparr>page := \<lparr>inner = W\<lparr>batches := tl (batches W), checked := [], dialog := False\<rparr>,
                          latency = d, pending = d\<rparr>,
                 clicked := clicked ?s3 @ [ConfirmButton]\<rparr>"
  have sl1: "sleep lazy_dom pollInterval s = ?s1"
    by (simp add: sleep_lazy pg pollInterval_def)
  have c: "?p1 (page ?s1) = JNode TrashButton"
    using cs by (simp add: query_probe_def lazy_dom_fields shown_def sim_querySelector_def pg CONFIG_def)
  have \<open>waitUntil lazy_dom ?p1 ''main "Move to trash" button'' (timeout CONFIG) s =
           (Inr (?p1 (page (sleep lazy_dom pollInterval s))), sleep lazy_dom pollInterval s)\<close>
    by (rule wait_first_tick) (simp_all only: sl1 c, simp_all add: pollInterval_def)
  then have w1: \<open>waitUntil lazy_dom ?p1 ''main "Move to trash" button'' (timeout CONFIG) s =
           (Inr (JNode TrashButton), ?s1)\<close>
    by (simp only: sl1 c)
  have k1: "click_value lazy_dom (JNode TrashButton) ?s1 = (None, ?s2)"
    using cs by (simp add: click_node_def lazy_dom_fields lazy_click_def sim_click_def pg)
  have sl2: "sleep lazy_dom pollInterval ?s2 = ?s3"
    by (simp add: sleep_lazy pollInterval_def)
  have q: "?p2 (page ?s3) = JNode ConfirmButton"
    using cs
    by (simp add: confirm_probe_def lazy_dom_fields shown_def sim_querySelectorAll_def
                  sim_textContent_def CONFIG_def)
  have \<open>waitUntil lazy_dom ?p2 ''confirmation "Move to trash" button'' (timeout CONFIG) ?s2 =
           (Inr (?p2 (page (sleep lazy_dom pollInterval ?s2))), sleep lazy_dom pollInterval ?s2)\<close>
    by (rule wait_first_tick) (simp_all only: sl2 q, simp_all add: pollInterval_def)
  then have w2: \<open>waitUntil lazy_dom ?p2 ''confirmation "Move to trash" button'' (timeout CONFIG) ?s2 =
           (Inr (JNode ConfirmButton), ?s3)\<close>
    by (simp only: sl2 q)
  have k2: "click_value lazy_dom (JNode ConfirmButton) ?s3 = (None, ?s4)"
    by (simp add: click_node_def lazy_dom_fields lazy_click_def sim_click_def)
  show ?thesis
    unfolding executeDeletion_def w1 using k1 w2 k2
    by (simp add: sleep_lazy)
qed

lemma container_wait_lazy:
  assumes pg: "page s = \<lparr>inner = sim_page True bs, latency = d, pending = r\<rparr>"
    and lim: "pollInterval \<le> limit"
  shows "waitUntil lazy_dom (query_probe lazy_dom (photoContainer (selectors CONFIG)))
             ''main photo container'' limit s =
           (Inr (JNode Container),
            s\<lparr>clock := clock s + 250,
              page := \<lparr>inner = sim_page True bs, latency = d, pending = r - 250\<rparr>\<rparr>)"
proof -
  let ?p = "query_probe lazy_dom (photoContainer (selectors CONFIG))"
  let ?s1 = "s\<lparr>clock := clock s + 250,
              page := \<lparr>inner = sim_page True bs, latency = d, pending = r - 250\<rparr>\<rparr>"
  have sl: "sleep lazy_dom pollInterval s = ?s1"
    by (simp add: sleep_lazy pg pollInterval_def)
  have c: "?p (page ?s1) = JNode Container"
    by (simp add: query_probe_def lazy_dom_fields shown_def sim_querySelector_def sim_page_def)
  have "waitUntil lazy_dom ?p ''main photo container'' limit s =
           (Inr (?p (page (sleep lazy_dom pollInterval s))), sleep lazy_dom pollInterval s)"
    by (rule wait_first_tick) (simp_all only: sl c lim, simp_all)
  then show ?thesis by (simp only: sl c)
qed

lemma seek_lazy:
  assumes pg: "page s = \<lparr>inner = sim_page True (b # bs), latency = d, pending = r\<rparr>"
    and b: "0 < b" and r: "r \<le> 30250"
  shows "\<exists>s3. seek_and_select CONFIG lazy_dom s = (Inr (map Checkbox [0..<b]), s3)
            \<and> page s3 = \<lparr>inner = (sim_page True (b # bs))\<lparr>checked := [0..<b]\<rparr>,
                           latency = d, pending = 0\<rparr>"
proof -
  let ?s1 = "s\<lparr>clock := clock s + 250,
              page := \<lparr>inner = sim_page True (b # bs), latency = d, pending = r - 250\<rparr>\<rparr>"
  have w1: "waitUntil lazy_dom (query_probe lazy_dom (photoContainer (selectors CONFIG)))
             ''main photo container'' (timeout CONFIG) s = (Inr (JNode Container), ?s1)"
    by (rule container_wait_lazy [OF pg]) (simp add: pollInterval_def)
  have pg1: "page ?s1 = \<lparr>inner = sim_page True (b # bs), latency = d, pending = r - 250\<rparr>"
    by simp
  have "r - 250 \<le> pollInterval * (timeout CONFIG div pollInterval)"
    using r by (simp add: pollInterval_def)
  from lazy_boxes_wait [OF pg1 b _ this, of "''any selectable photo''"]
  obtain s2 where w2: "waitUntil lazy_dom (query_all_probe lazy_dom (checkbox (selectors CONFIG)))
                 ''any selectable photo'' (timeout CONFIG) ?s1 = (Inr (JList (map Checkbox [0..<b])), s2)"
     and pg2: "page s2 = \<lparr>inner = sim_page True (b # bs), latency = d, pending = 0\<rparr>"
    by (auto simp: pollInterval_def)
  have sel: "select_all lazy_dom (map Checkbox [0..<b]) s2 =
           s2\<lparr>page := \<lparr>inner = (sim_page True (b # bs))\<lparr>checked := checked (sim_page True (b # bs)) @ [0..<b]\<rparr>,
                         latency = d, pending = 0\<rparr>,
             clicked := clicked s2 @ map Checkbox [0..<b]\<rparr>"
    by (rule select_all_lazy [OF pg2]) (auto simp: sim_page_def on_screen_def)
  have "seek_and_select CONFIG lazy_dom s = (Inr (map Checkbox [0..<b]), select_all lazy_dom (map Checkbox [0..<b]) s2)"
    unfolding seek_and_select_def w1 by (simp add: w2 [unfolded CONFIG_simps])
  then show ?thesis by (simp add: sel sim_page_def)
qed

lemma seek_lazy_empty:
  assumes pg: "page s = \<lparr>inner = sim_page True [], latency = d, pending = r\<rparr>"
  shows "\<exists>s'. seek_and_select CONFIG lazy_dom s =
           (Inl (Error (timeout_message ''any selectable photo'' (timeout CONFIG))), s')"
proof -
  let ?s1 = "s\<lparr>clock := clock s + 250,
              page := \<lparr>inner = sim_page True [], latency = d, pending = r - 250\<rparr>\<rparr>"
  have w1: "waitUntil lazy_dom (query_probe lazy_dom (photoContainer (selectors CONFIG)))
             ''main photo container'' (timeout CONFIG) s = (Inr (JNode Container), ?s1)"
    by (rule container_wait_lazy [OF pg]) (simp add: pollInterval_def)
  have pg1: "page ?s1 = \<lparr>inner = sim_page True [], latency = d, pending = r - 250\<rparr>"
    by simp
  have w2: "waitUntil lazy_dom (query_all_probe lazy_dom (checkbox (selectors CONFIG)))
             ''any selectable photo'' (timeout CONFIG) ?s1 =
           (Inl (Error (timeout_message ''any selectable photo'' (timeout CONFIG))),
            after_ticks lazy_dom (timeout CONFIG div pollInterval + 1) ?s1)"
    by (rule lazy_boxes_timeout [OF pg1]) simp
  show ?thesis unfolding seek_and_select_def w1 by (simp add: w2 [unfolded CONFIG_simps])
qed

lemma delete_batch_lazy:
  assumes pg: "page s = \<lparr>inner = sim_page True (b # bs), latency = d, pending = r\<rparr>"
    and b: "0 < b" and r: "r \<le> 30250"
  shows "\<exists>s5. delete_batch CONFIG lazy_dom s = (Inr b, s5)
            \<and> page s5 = \<lparr>inner = sim_page True bs, latency = d, pending = d - 1000\<rparr>"
proof -
  obtain s3 where ss: "seek_and_select CONFIG lazy_dom s = (Inr (map Checkbox [0..<b]), s3)"
    and pg3: "page s3 = \<lparr>inner = (sim_page True (b # bs))\<lparr>checked := [0..<b]\<rparr>,
                           latency = d, pending = 0\<rparr>"
    using seek_lazy [OF pg b r] by blast
  let ?s4 = "sleep lazy_dom 500 s3"
  have pg4: "page ?s4 = \<lparr>inner = (sim_page True (b # bs))\<lparr>checked := [0..<b]\<rparr>,
                           latency = d, pending = 0\<rparr>"
    by (simp add: sleep_lazy pg3)
  have ne: "checked ((sim_page True (b # bs))\<lparr>checked := [0..<b]\<rparr>) \<noteq> []"
    using b by simp
  note ex = exec_lazy [OF pg4 ne]
  show ?thesis
    by (simp add: delete_batch_def ss Let_def ex sim_page_def)
qed

lemma try_basic_lazy:
  assumes pg: "page s = \<lparr>inner = sim_page True (b # bs), latency = d, pending = r\<rparr>"
    and b: "0 < b" and r: "r \<le> 30250"
  shows "\<exists>s5. try_body_basic CONFIG lazy_dom t s = ((None, t + b), s5)
            \<and> page s5 = \<lparr>inner = sim_page True bs, latency = d, pending = d - 1000\<rparr>"
proof -
  obtain s3 where ss: "seek_and_select CONFIG lazy_dom s = (Inr (map Checkbox [0..<b]), s3)"
    and pg3: "page s3 = \<lparr>inner = (sim_page True (b # bs))\<lparr>checked := [0..<b]\<rparr>,
                           latency = d, pending = 0\<rparr>"
    using seek_lazy [OF pg b r] by blast
  let ?s4 = "sleep lazy_dom 500 s3"
  have pg4: "page ?s4 = \<lparr>inner = (sim_page True (b # bs))\<lparr>checked := [0..<b]\<rparr>,
                           latency = d, pending = 0\<rparr>"
    by (simp add: sleep_lazy pg3)
  have ne: "checked ((sim_page True (b # bs))\<lparr>checked := [0..<b]\<rparr>) \<noteq> []"
    using b by simp
  note ex = exec_lazy [OF pg4 ne]
  show ?thesis
    by (simp add: try_body_basic_def ss Let_def ex sim_page_def)
qed

lemma count_after_lazy_none:
  assumes pg: "page s = \<lparr>inner = sim_page True bs, latency = d, pending = r\<rparr>"
    and no: "bs = [] \<or> 5000 < r"
  shows "\<exists>s6. count_after CONFIG lazy_dom s = (0, s6)
            \<and> page s6 = \<lparr>inner = sim_page True bs, latency = d, pending = r - 5250\<rparr>"
proof -
  have "waitUntil lazy_dom (query_all_probe lazy_dom (checkbox (selectors CONFIG)))
             ''any selectable photo'' 5000 s =
           (Inl (Error (timeout_message ''any selectable photo'' 5000)),
            after_ticks lazy_dom (5000 div pollInterval + 1) s)"
    by (rule lazy_boxes_timeout [OF pg]) (use no in \<open>simp add: pollInterval_def\<close>)
  then show ?thesis
    by (simp add: count_after_def after_ticks_lazy pg pollInterval_def)
qed

lemma count_after_lazy_next:
  assumes pg: "page s = \<lparr>inner = sim_page True (b # bs), latency = d, pending = r\<rparr>"
    and b: "0 < b" and r: "r \<le> 5000"
  shows "\<exists>s6. count_after CONFIG lazy_dom s = (b, s6)
            \<and> page s6 = \<lparr>inner = sim_page True (b # bs), latency = d, pending = 0\<rparr>"
proof -
  have "r \<le> pollInterval * (5000 div pollInterval)"
    using r by (simp add: pollInterval_def)
  from lazy_boxes_wait [OF pg b _ this, of "''any selectable photo''"]
  obtain s6 where "waitUntil lazy_dom (query_all_probe lazy_dom (checkbox (selectors CONFIG)))
                 ''any selectable photo'' 5000 s = (Inr (JList (map Checkbox [0..<b])), s6)"
     and "page s6 = \<lparr>inner = sim_page True (b # bs), latency = d, pending = 0\<rparr>"
    by (auto simp: pollInterval_def)
  then show ?thesis by (simp add: count_after_def)
qed

lemma run_basic_lazy:
  assumes d: "d \<le> 31250"
    and pg: "page s = \<lparr>inner = sim_page True bs, latency = d, pending = r\<rparr>"
    and r: "r \<le> 30250" and pos: "\<forall>b\<in>set bs. 0 < b"
  shows "map_option fst (run_loop_basic CONFIG lazy_dom t s) =
           Some \<lparr>outcome = Done, reported = t + sum_list bs\<rparr>"
  using pg r pos
proof (induction bs arbitrary: t s r)
  case Nil
  obtain s' where "seek_and_select CONFIG lazy_dom s =
           (Inl (Error (timeout_message ''any selectable photo'' (timeout CONFIG))), s')"
    using seek_lazy_empty [OF Nil.prems(1)] by blast
  then show ?case
    by (subst run_loop_basic.simps) (simp add: try_body_basic_def)
next
  case (Cons b bs)
  then have b: "0 < b" by simp
  obtain s' where s': "try_body_basic CONFIG lazy_dom t s = ((None, t + b), s')"
      "page s' = \<lparr>inner = sim_page True bs, latency = d, pending = d - 1000\<rparr>"
    using try_basic_lazy [OF Cons.prems(1) b Cons.prems(2)] by blast
  have "map_option fst (run_loop_basic CONFIG lazy_dom (t + b) s') =
           Some \<lparr>outcome = Done, reported = t + b + sum_list bs\<rparr>"
    by (rule Cons.IH [OF s'(2)]) (use Cons.prems d in simp_all)
  then show ?case
    by (subst run_loop_basic.simps) (simp add: s' add.assoc)
qed

lemma run_stall_lazy_empty:
  assumes pg: "page s = \<lparr>inner = sim_page True [], latency = d, pending = r\<rparr>"
  shows "map_option fst (run_loop_stall CONFIG lazy_dom rs s) =
           Some \<lparr>outcome = Done, reported = totalDeleted rs\<rparr>"
proof -
  obtain s' where "seek_and_select CONFIG lazy_dom s =
           (Inl (Error (timeout_message ''any selectable photo'' (timeout CONFIG))), s')"
    using seek_lazy_empty [OF pg] by blast
  then have "try_body_stall CONFIG lazy_dom rs s =
           (Inl (Error (timeout_message ''any selectable photo'' (timeout CONFIG))), s')"
    by (simp add: try_body_stall_def delete_batch_def)
  from run_loop_stall_error [OF this] show ?thesis
    by (simp add: on_error_selectable)
qed

lemma try_stall_lazy_none:
  assumes pg: "page s = \<lparr>inner = sim_page True (b # bs), latency = d, pending = r\<rparr>"
    and b: "0 < b" and r: "r \<le> 30250" and no: "bs = [] \<or> 6000 < d"
  shows "\<exists>s6. try_body_stall CONFIG lazy_dom rs s =
                 (Inr \<lparr>totalDeleted = totalDeleted rs + b, stallCounter = 0\<rparr>, s6)
            \<and> page s6 = \<lparr>inner = sim_page True bs, latency = d, pending = d - 6250\<rparr>"
proof -
  obtain s5 where s5: "delete_batch CONFIG lazy_dom s = (Inr b, s5)"
      "page s5 = \<lparr>inner = sim_page True bs, latency = d, pending = d - 1000\<rparr>"
    using delete_batch_lazy [OF pg b r] by blast
  have "bs = [] \<or> 5000 < d - 1000" using no by auto
  from count_after_lazy_none [OF s5(2) this]
  obtain s6 where s6: "count_after CONFIG lazy_dom s5 = (0, s6)"
      "page s6 = \<lparr>inner = sim_page True bs, latency = d, pending = d - 1000 - 5250\<rparr>"
    by blast
  have acc: "account CONFIG rs b 0 = Inr \<lparr>totalDeleted = totalDeleted rs + b, stallCounter = 0\<rparr>"
    using b by (simp add: account_def)
  show ?thesis
    by (simp add: try_body_stall_def s5 s6 acc)
qed

lemma try_stall_lazy_next:
  assumes pg: "page s = \<lparr>inner = sim_page True (b # c # bs), latency = d, pending = r\<rparr>"
    and b: "0 < b" and c: "0 < c" and r: "r \<le> 30250" and d: "d \<le> 6000"
  shows "\<exists>s6. try_body_stall CONFIG lazy_dom rs s = (account CONFIG rs b c, s6)
            \<and> page s6 = \<lparr>inner = sim_page True (c # bs), latency = d, pending = 0\<rparr>"
proof -
  obtain s5 where s5: "delete_batch CONFIG lazy_dom s = (Inr b, s5)"
      "page s5 = \<lparr>inner = sim_page True (c # bs), latency = d, pending = d - 1000\<rparr>"
    using delete_batch_lazy [OF pg b r] by blast
  have "d - 1000 \<le> 5000" using d by simp
  from count_after_lazy_next [OF s5(2) c this]
  obtain s6 where s6: "count_after CONFIG lazy_dom s5 = (c, s6)"
      "page s6 = \<lparr>inner = sim_page True (c # bs), latency = d, pending = 0\<rparr>"
    by blast
  show ?thesis
    by (simp add: try_body_stall_def s5 s6)
qed

lemma run_stall_lazy_single:
  assumes pg: "page s = \<lparr>inner = sim_page True [b], latency = d, pending = r\<rparr>"
    and b: "0 < b" and r: "r \<le> 30250"
  shows "map_option fst (run_loop_stall CONFIG lazy_dom rs s) =
           Some \<lparr>outcome = Done, reported = totalDeleted rs + b\<rparr>"
proof -
  let ?rs = "\<lparr>totalDeleted = totalDeleted rs + b, stallCounter = 0\<rparr>"
  obtain s6 where s6: "try_body_stall CONFIG lazy_dom rs s = (Inr ?rs, s6)"
      "page s6 = \<lparr>inner = sim_page True [], latency = d, pending = d - 6250\<rparr>"
    using try_stall_lazy_none [OF pg b r, of rs] by blast
  have "run_loop_stall CONFIG lazy_dom rs s = run_loop_stall CONFIG lazy_dom ?rs s6"
    by (subst run_loop_stall.simps) (simp add: s6(1))
  then show ?thesis
    using run_stall_lazy_empty [OF s6(2), of ?rs] by simp
qed

lemma run_stall_lazy_late:
  assumes d: "6000 < d" "d \<le> 36500"
    and pg: "page s = \<lparr>inner = sim_page True bs, latency = d, pending = r\<rparr>"
    and r: "r \<le> 30250" and pos: "\<forall>b\<in>set bs. 0 < b"
  shows "map_option fst (run_loop_stall CONFIG lazy_dom rs s) =
           Some \<lparr>outcome = Done, reported = totalDeleted rs + sum_list bs\<rparr>"
  using pg r pos
proof (induction bs arbitrary: rs s r)
  case Nil
  then show ?case using run_stall_lazy_empty [OF Nil.prems(1), of rs] by simp
next
  case (Cons b bs)
  then have b: "0 < b" by simp
  let ?rs = "\<lparr>totalDeleted = totalDeleted rs + b, stallCounter = 0\<rparr>"
  obtain s6 where s6: "try_body_stall CONFIG lazy_dom rs s = (Inr ?rs, s6)"
      "page s6 = \<lparr>inner = sim_page True bs, latency = d, pending = d - 6250\<rparr>"
    using try_stall_lazy_none [OF Cons.prems(1) b Cons.prems(2), of rs] d by blast
  have "map_option fst (run_loop_stall CONFIG lazy_dom ?rs s6) =
           Some \<lparr>outcome = Done, reported = totalDeleted ?rs + sum_list bs\<rparr>"
    by (rule Cons.IH [OF s6(2)]) (use Cons.prems d in simp_all)
  moreover have "run_loop_stall CONFIG lazy_dom rs s = run_loop_stall CONFIG lazy_dom ?rs s6"
    by (subst run_loop_stall.simps) (simp add: s6(1))
  ultimately show ?case by (simp add: add.assoc)
qed

lemma account_no_halt:
  assumes "stallCounter rs + 2 \<le> stallLimit cfg"
  shows "\<exists>rs'. account cfg rs b c = Inr rs'
            \<and> totalDeleted rs' = totalDeleted rs + (b - c)
            \<and> stallCounter rs' \<le> stallCounter rs + 1"
  using assms by (auto simp: account_def Let_def)

lemma run_stall_lazy_early:
  assumes d: "d \<le> 6000"
    and pg: "page s = \<lparr>inner = sim_page True bs, latency = d, pending = r\<rparr>"
    and r: "r \<le> 30250" and pos: "\<forall>b\<in>set bs. 0 < b"
    and len: "stallCounter rs + length bs \<le> stallLimit CONFIG"
  shows "map_option fst (run_loop_stall CONFIG lazy_dom rs s) =
           Some \<lparr>outcome = Done,
                 reported = totalDeleted rs + sum_list (map2 (-) bs (tl bs @ [0]))\<rparr>"
  using pg r pos len
proof (induction bs arbitrary: rs s r rule: induct_list012)
  case 1
  then show ?case using run_stall_lazy_empty [OF "1.prems"(1), of rs] by simp
next
  case (2 b)
  then have b: "0 < b" by simp
  show ?case using run_stall_lazy_single [OF "2.prems"(1) b "2.prems"(2), of rs] by simp
next
  case (3 b c bs)
  then have b: "0 < b" and c: "0 < c" by simp_all
  obtain s6 where s6: "try_body_stall CONFIG lazy_dom rs s = (account CONFIG rs b c, s6)"
      "page s6 = \<lparr>inner = sim_page True (c # bs), latency = d, pending = 0\<rparr>"
    using try_stall_lazy_next [OF "3.prems"(1) b c "3.prems"(2) d, of rs] by blast
  have "stallCounter rs + 2 \<le> stallLimit CONFIG" using "3.prems"(4) by simp
  from account_no_halt [OF this, of b c]
  obtain rs' where rs': "account CONFIG rs b c = Inr rs'"
      "totalDeleted rs' = totalDeleted rs + (b - c)" "stallCounter rs' \<le> stallCounter rs + 1"
    by blast
  have "map_option fst (run_loop_stall CONFIG lazy_dom rs' s6) =
           Some \<lparr>outcome = Done,
                 reported = totalDeleted rs' + sum_list (map2 (-) (c # bs) (tl (c # bs) @ [0]))\<rparr>"
    by (rule "3.IH"(2) [OF s6(2)]) (use "3.prems" rs'(3) in simp_all)
  moreover have "run_loop_stall CONFIG lazy_dom rs s = run_loop_stall CONFIG lazy_dom rs' s6"
    by (subst run_loop_stall.simps) (simp add: s6(1) rs'(1))
  ultimately show ?case by (simp add: rs'(2) add.assoc)
qed

lemma run_stall_sim_early:
  assumes cfg: "selectors cfg = selectors CONFIG" "pollInterval \<le> timeout cfg"
    and pg: "page s = sim_page True bs" and pos: "\<forall>b\<in>set bs. 0 < b"
    and len: "stallCounter rs + length bs \<le> stallLimit cfg"
  shows "map_option fst (run_loop_stall cfg sim_dom rs s) =
           Some \<lparr>outcome = Done,
                 reported = totalDeleted rs + sum_list (map2 (-) bs (tl bs @ [0]))\<rparr>"
  using pg pos len
proof (induction bs arbitrary: rs s rule: induct_list012)
  case 1
  then show ?case using run_stall_sim_empty [OF cfg "1.prems"(1), of rs] by simp
next
  case (2 b)
  then have b: "0 < b" by simp
  show ?case using run_stall_sim_single [OF cfg "2.prems"(1) b, of rs] by simp
next
  case (3 b c bs)
  then have b: "0 < b" and c: "0 < c" by simp_all
  obtain s6 where s6: "try_body_stall cfg sim_dom rs s =
        (account cfg rs b (on_screen (sim_page True (c # bs))), s6)"
      "page s6 = sim_page True (c # bs)"
    using try_stall_sim [OF cfg "3.prems"(1) b, of rs] by blast
  have on: "on_screen (sim_page True (c # bs)) = c"
    by (simp add: on_screen_def sim_page_def)
  have "stallCounter rs + 2 \<le> stallLimit cfg" using "3.prems"(3) by simp
  from account_no_halt [OF this, of b c]
  obtain rs' where rs': "account cfg rs b c = Inr rs'"
      "totalDeleted rs' = totalDeleted rs + (b - c)" "stallCounter rs' \<le> stallCounter rs + 1"
    by blast
  have "map_option fst (run_loop_stall cfg sim_dom rs' s6) =
           Some \<lparr>outcome = Done,
                 reported = totalDeleted rs' + sum_list (map2 (-) (c # bs) (tl (c # bs) @ [0]))\<rparr>"
    by (rule "3.IH"(2) [OF s6(2)]) (use "3.prems" rs'(3) in simp_all)
  moreover have "run_loop_stall cfg sim_dom rs s = run_loop_stall cfg sim_dom rs' s6"
    by (subst run_loop_stall.simps) (simp add: s6(1) on rs'(1))
  ultimately show ?case by (simp add: rs'(2) add.assoc)
qed

lemma decreases_le:
  "sum_list (map2 (-) bs (tl bs @ [0])) \<le> sum_list (bs :: nat list)"
  by (induction bs rule: induct_list012) simp_all

lemma decreases_less:
  assumes "\<forall>b\<in>set bs. 0 < b" and "2 \<le> length bs"
  shows "sum_list (map2 (-) bs (tl bs @ [0])) < sum_list (bs :: nat list)"
proof -
  obtain b c cs where bs: "bs = b # c # cs"
    using assms(2) by (cases bs; cases "tl bs") auto
  have "0 < b" "0 < c" using assms(1) bs by simp_all
  then have "b - c < b" by simp
  moreover have "sum_list (map2 (-) (c # cs) (tl (c # cs) @ [0])) \<le> sum_list (c # cs)"
    by (rule decreases_le)
  ultimately show ?thesis by (simp add: bs)
qed

lemma seek_lazy_late:
  assumes pg: "page s = \<lparr>inner = sim_page True bs, latency = d, pending = r\<rparr>"
    and r: "30250 < r"
  shows "\<exists>s'. seek_and_select CONFIG lazy_dom s =
           (Inl (Error (timeout_message ''any selectable photo'' (timeout CONFIG))), s')"
proof -
  let ?s1 = "s\<lparr>clock := clock s + 250,
              page := \<lparr>inner = sim_page True bs, latency = d, pending = r - 250\<rparr>\<rparr>"
  have w1: "waitUntil lazy_dom (query_probe lazy_dom (photoContainer (selectors CONFIG)))
             ''main photo container'' (timeout CONFIG) s = (Inr (JNode Container), ?s1)"
    by (rule container_wait_lazy [OF pg]) (simp add: pollInterval_def)
  have pg1: "page ?s1 = \<lparr>inner = sim_page True bs, latency = d, pending = r - 250\<rparr>"
    by simp
  have w2: "waitUntil lazy_dom (query_all_probe lazy_dom (checkbox (selectors CONFIG)))
             ''any selectable photo'' (timeout CONFIG) ?s1 =
           (Inl (Error (timeout_message ''any selectable photo'' (timeout CONFIG))),
            after_ticks lazy_dom (timeout CONFIG div pollInterval + 1) ?s1)"
    by (rule lazy_boxes_timeout [OF pg1]) (use r in \<open>auto simp: pollInterval_def\<close>)
  show ?thesis unfolding seek_and_select_def w1 by (simp add: w2 [unfolded CONFIG_simps])
qed

lemma run_basic_lazy_late:
  assumes d: "31250 < d"
    and pg: "page s = \<lparr>inner = sim_page True (b # bs), latency = d, pending = r\<rparr>"
    and r: "r \<le> 30250" and b: "0 < b"
  shows "map_option fst (run_loop_basic CONFIG lazy_dom t s) =
           Some \<lparr>outcome = Done, reported = t + b\<rparr>"
proof -
  obtain s5 where s5: "try_body_basic CONFIG lazy_dom t s = ((None, t + b), s5)"
      "page s5 = \<lparr>inner = sim_page True bs, latency = d, pending = d - 1000\<rparr>"
    using try_basic_lazy [OF pg b r] by blast
  have "30250 < d - 1000" using d by simp
  from seek_lazy_late [OF s5(2) this]
  obtain s' where "seek_and_select CONFIG lazy_dom s5 =
           (Inl (Error (timeout_message ''any selectable photo'' (timeout CONFIG))), s')"
    by blast
  then have "map_option fst (run_loop_basic CONFIG lazy_dom (t + b) s5) =
           Some \<lparr>outcome = Done, reported = t + b\<rparr>"
    by (subst run_loop_basic.simps) (simp add: try_body_basic_def)
  then show ?thesis
    by (subst run_loop_basic.simps) (simp add: s5(1))
qed

lemma run_stall_lazy_too_late:
  assumes d: "36500 < d"
    and pg: "page s = \<lparr>inner = sim_page True (b # bs), latency = d, pending = r\<rparr>"
    and r: "r \<le> 30250" and b: "0 < b"
  shows "map_option fst (run_loop_stall CONFIG lazy_dom rs s) =
           Some \<lparr>outcome = Done, reported = totalDeleted rs + b\<rparr>"
proof -
  let ?rs = "\<lparr>totalDeleted = totalDeleted rs + b, stallCounter = 0\<rparr>"
  have "bs = [] \<or> 6000 < d" using d by simp
  from try_stall_lazy_none [OF pg b r this, of rs]
  obtain s6 where s6: "try_body_stall CONFIG lazy_dom rs s = (Inr ?rs, s6)"
      "page s6 = \<lparr>inner = sim_page True bs, latency = d, pending = d - 6250\<rparr>"
    by blast
  have "30250 < d - 6250" using d by simp
  from seek_lazy_late [OF s6(2) this]
  obtain s' where "seek_and_select CONFIG lazy_dom s6 =
           (Inl (Error (timeout_message ''any selectable photo'' (timeout CONFIG))), s')"
    by blast
  then have "try_body_stall CONFIG lazy_dom ?rs s6 =
           (Inl (Error (timeout_message ''any selectable photo'' (timeout CONFIG))), s')"
    by (simp add: try_body_stall_def delete_batch_def)
  from run_loop_stall_error [OF this]
  have "map_option fst (run_loop_stall CONFIG lazy_dom ?rs s6) =
           Some \<lparr>outcome = Done, reported = totalDeleted rs + b\<rparr>"
    by (simp add: on_error_selectable)
  moreover have "run_loop_stall CONFIG lazy_dom rs s = run_loop_stall CONFIG lazy_dom ?rs s6"
    by (subst run_loop_stall.simps) (simp add: s6(1))
  ultimately show ?thesis by simp
qed

section \<open>The polling primitive\<close>

text \<open>
  Claim C3. \<^verbatim>\<open>waitUntil\<close> is to resolve with the probe's result as soon as the probe returns a
  truthy result, as the comment above the function says too ("until it returns a truthy
  value"). The code asks for more than a truthy result, a positive length or a node type, and
  so it does not resolve for the probe \<^verbatim>\<open>() => true\<close>: the result is truthy at every poll, the
  polls within the limit of one second pass, and the wait fails with the timeout error at
  the first tick after the limit.
\<close>

theorem waitUntil_true_probe_times_out:
  "truthy (flag_probe (sim_page True []))
   \<and> waitUntil sim_dom flag_probe ''a flag'' 1000 (start (sim_page True [])) =
       (Inl (Error ''Timeout: Could not find a flag after 1 seconds.''),
        \<lparr>clock = 1250, page = sim_page True [], clicked = []\<rparr>)"
proof -
  have m: "timeout_message ''a flag'' 1000 = ''Timeout: Could not find a flag after 1 seconds.''"
    by (simp add: timeout_message_def seconds_text_def digit_char_def)
  let ?s = "start (sim_page True []) :: (sim, sim_elem) state"
  have "waitUntil sim_dom flag_probe ''a flag'' 1000 ?s =
          (Inl (Error (timeout_message ''a flag'' 1000)),
           ?s\<lparr>clock := clock ?s + pollInterval * (1000 div pollInterval + 1)\<rparr>)"
    by (rule sim_wait_timeout) (simp add: flag_probe_def)
  then show ?thesis
    by (simp add: m flag_probe_def start_def pollInterval_def)
qed



section \<open>The deletion action sequence and the batch\<close>



text \<open>
  Claim C8. The page is arbitrary here, so any click of a control may throw. The selecting
  loop applies \<^verbatim>\<open>click()\<close> to every control found, in the order found, each on the page the
  click before it left, and what a click throws is dropped. In particular, when the click of
  a control throws, the loop goes on with the controls after it, from the page that click
  left. The turn then pauses and runs the deletion sequence, in both scripts, and how the
  turn ends is decided by the deletion sequence alone.
\<close>

theorem select_tolerates_click_failures:
  "select_all D boxes s2 =
     s2\<lparr>page := foldl (\<lambda>w box. snd (click D box w)) (page s2) boxes,
        clicked := clicked s2 @ boxes\<rparr>
   \<and> (fst (click D box (page (select_all D pre s0))) = Some m
      \<longrightarrow> select_all D (pre @ box # post) s0 =
            select_all D post
              ((select_all D pre s0)
                 \<lparr>page := snd (click D box (page (select_all D pre s0))),
                  clicked := clicked (select_all D pre s0) @ [box]\<rparr>))
   \<and> (waitUntil D (query_probe D (photoContainer (selectors cfg)))
          ''main photo container'' (timeout cfg) s = (Inr found, s1)
       \<and> waitUntil D (query_all_probe D (checkbox (selectors cfg)))
          ''any selectable photo'' (timeout cfg) s1 = (Inr (JList boxes), s2)
      \<longrightarrow> seek_and_select cfg D s = (Inr boxes, select_all D boxes s2)
        \<and> try_body_basic cfg D t s =
            (case executeDeletion cfg D (sleep D 500 (select_all D boxes s2)) of
               (Inl e, s5) \<Rightarrow> ((Some e, t + length boxes), s5)
             | (Inr u, s5) \<Rightarrow> ((None, t + length boxes), s5))
        \<and> delete_batch cfg D s =
            (case executeDeletion cfg D (sleep D 500 (select_all D boxes s2)) of
               (Inl e, s5) \<Rightarrow> (Inl e, s5)
             | (Inr u, s5) \<Rightarrow> (Inr (length boxes), s5)))"
proof (intro conjI impI)
  show "select_all D boxes s2 =
     s2\<lparr>page := foldl (\<lambda>w box. snd (click D box w)) (page s2) boxes,
        clicked := clicked s2 @ boxes\<rparr>"
    by (rule select_all_fold)
  show "select_all D (pre @ box # post) s0 =
            select_all D post
              ((select_all D pre s0)
                 \<lparr>page := snd (click D box (page (select_all D pre s0))),
                  clicked := clicked (select_all D pre s0) @ [box]\<rparr>)"
    by (simp add: select_all_after_throw click_node_def split: prod.splits)
next
  assume w: "waitUntil D (query_probe D (photoContainer (selectors cfg)))
          ''main photo container'' (timeout cfg) s = (Inr found, s1)
       \<and> waitUntil D (query_all_probe D (checkbox (selectors cfg)))
          ''any selectable photo'' (timeout cfg) s1 = (Inr (JList boxes), s2)"
  then have ss: "seek_and_select cfg D s = (Inr boxes, select_all D boxes s2)"
    using seek_and_select_found [of D cfg s found s1 boxes s2] by blast
  show "seek_and_select cfg D s = (Inr boxes, select_all D boxes s2)" by (rule ss)
  show "try_body_basic cfg D t s =
            (case executeDeletion cfg D (sleep D 500 (select_all D boxes s2)) of
               (Inl e, s5) \<Rightarrow> ((Some e, t + length boxes), s5)
             | (Inr u, s5) \<Rightarrow> ((None, t + length boxes), s5))"
    by (simp add: try_body_basic_def ss Let_def)
  show "delete_batch cfg D s =
            (case executeDeletion cfg D (sleep D 500 (select_all D boxes s2)) of
               (Inl e, s5) \<Rightarrow> (Inl e, s5)
             | (Inr u, s5) \<Rightarrow> (Inr (length boxes), s5))"
    by (simp add: delete_batch_def ss Let_def)
qed

text \<open>
  A batch of three in which the click of the second box throws: the third box is checked all
  the same, and the deletion runs.
\<close>

theorem select_tolerates_click_failures_witness:
  "fst (click sim_dom (Checkbox 1) ((sim_page True [3])\<lparr>detached := [1], checked := [0]\<rparr>)) =
      Some ''the element is detached''
   \<and> seek_and_select CONFIG sim_dom (start ((sim_page True [3])\<lparr>detached := [1]\<rparr>)) =
      (Inr [Checkbox 0, Checkbox 1, Checkbox 2],
       \<lparr>clock = 500,
        page = \<lparr>container = True, batches = [3], checked = [0, 2], dialog = False,
                detached = [1]\<rparr>,
        clicked = [Checkbox 0, Checkbox 1, Checkbox 2]\<rparr>)
   \<and> try_body_basic CONFIG sim_dom 0 (start ((sim_page True [3])\<lparr>detached := [1]\<rparr>)) =
      ((None, 3),
       \<lparr>clock = 2500,
        page = \<lparr>container = True, batches = [], checked = [], dialog = False, detached = [1]\<rparr>,
        clicked = [Checkbox 0, Checkbox 1, Checkbox 2, TrashButton, ConfirmButton]\<rparr>)
   \<and> delete_batch CONFIG sim_dom (start ((sim_page True [3])\<lparr>detached := [1]\<rparr>)) =
      (Inr 3,
       \<lparr>clock = 2500,
        page = \<lparr>container = True, batches = [], checked = [], dialog = False, detached = [1]\<rparr>,
        clicked = [Checkbox 0, Checkbox 1, Checkbox 2, TrashButton, ConfirmButton]\<rparr>)"
proof -
  let ?w = "(sim_page True [3])\<lparr>detached := [1]\<rparr>"
  let ?s = "start ?w :: (sim, sim_elem) state"
  let ?s1 = "?s\<lparr>clock := clock ?s + pollInterval\<rparr>"
  let ?s2 = "?s1\<lparr>clock := clock ?s1 + pollInterval\<rparr>"
  let ?boxes = "[Checkbox 0, Checkbox 1, Checkbox 2]"
  let ?fin = "\<lparr>clock = 2500,
        page = \<lparr>container = True, batches = [], checked = [], dialog = False, detached = [1]\<rparr>,
        clicked = [Checkbox 0, Checkbox 1, Checkbox 2, TrashButton, ConfirmButton]\<rparr>"
  have c: "query_probe sim_dom (photoContainer (selectors CONFIG)) (page ?s) = JNode Container"
    by (simp add: query_probe_def sim_dom_fields sim_querySelector_def sim_page_def start_def)
  have w1: "waitUntil sim_dom (query_probe sim_dom (photoContainer (selectors CONFIG)))
               ''main photo container'' (timeout CONFIG) ?s = (Inr (JNode Container), ?s1)"
    using sim_wait_found [of "query_probe sim_dom (photoContainer (selectors CONFIG))" ?s "timeout CONFIG"] c
    by (simp add: pollInterval_def)
  have q: "query_all_probe sim_dom (checkbox (selectors CONFIG)) (page ?s1) = JList ?boxes"
    by (simp add: query_all_probe_def sim_dom_fields sim_querySelectorAll_def sim_page_def
                  on_screen_def start_def upt_3)
  have w2: "waitUntil sim_dom (query_all_probe sim_dom (checkbox (selectors CONFIG)))
               ''any selectable photo'' (timeout CONFIG) ?s1 = (Inr (JList ?boxes), ?s2)"
    using sim_wait_found [of "query_all_probe sim_dom (checkbox (selectors CONFIG))" ?s1 "timeout CONFIG"] q
    by (simp add: pollInterval_def)
  note T = select_tolerates_click_failures
             [where D = sim_dom and cfg = CONFIG and s = ?s and found = "JNode Container"
                and ?s1.0 = ?s1 and ?s2.0 = ?s2 and boxes = ?boxes and t = 0
                and ?s0.0 = ?s2 and pre = "[Checkbox 0]" and box = "Checkbox 1"
                and post = "[Checkbox 2]" and m = "''the element is detached''"]
  let ?p1 = "\<lparr>clock = 500, page = ?w\<lparr>checked := [0]\<rparr>, clicked = [Checkbox 0]\<rparr>"
  have pre: "select_all sim_dom [Checkbox 0] ?s2 = ?p1"
    by (simp add: click_node_def sim_dom_fields sim_click_def on_screen_def sim_page_def
                  start_def pollInterval_def)
  have thr: "fst (click sim_dom (Checkbox 1) (?w\<lparr>checked := [0]\<rparr>)) =
      Some ''the element is detached''"
    by (simp add: sim_dom_fields sim_click_def sim_page_def)
  then have thr': "fst (click sim_dom (Checkbox 1) (page (select_all sim_dom [Checkbox 0] ?s2))) =
      Some ''the element is detached''"
    by (simp only: pre) simp
  let ?s3 = "\<lparr>clock = 500, page = ?w\<lparr>checked := [0, 2]\<rparr>, clicked = ?boxes\<rparr>"
  have "select_all sim_dom ([Checkbox 0] @ Checkbox 1 # [Checkbox 2]) ?s2 =
      select_all sim_dom [Checkbox 2]
        ((select_all sim_dom [Checkbox 0] ?s2)
           \<lparr>page := snd (click sim_dom (Checkbox 1) (page (select_all sim_dom [Checkbox 0] ?s2))),
            clicked := clicked (select_all sim_dom [Checkbox 0] ?s2) @ [Checkbox 1]\<rparr>)"
    by (rule T [THEN conjunct2, THEN conjunct1, THEN mp, OF thr'])
  then have sel: "select_all sim_dom ?boxes ?s2 = ?s3"
    by (simp only: pre)
       (simp add: click_node_def sim_dom_fields sim_click_def on_screen_def sim_page_def)
  have ex: "executeDeletion CONFIG sim_dom (sleep sim_dom 500 ?s3) = (Inr (), ?fin)"
    using exec_sim_page [where cfg = CONFIG and s = "sleep sim_dom 500 ?s3"]
    by (simp add: sleep_sim sim_page_def pollInterval_def)
  note R = T [THEN conjunct2, THEN conjunct2, THEN mp, OF conjI [OF w1 w2]]
  have a: "seek_and_select CONFIG sim_dom ?s = (Inr ?boxes, ?s3)"
    using R [THEN conjunct1] by (simp only: sel)
  have "try_body_basic CONFIG sim_dom 0 ?s =
            (case executeDeletion CONFIG sim_dom (sleep sim_dom 500 ?s3) of
               (Inl e, s5) \<Rightarrow> ((Some e, 0 + length ?boxes), s5)
             | (Inr u, s5) \<Rightarrow> ((None, 0 + length ?boxes), s5))"
    using R [THEN conjunct2, THEN conjunct1] by (simp only: sel)
  then have b: "try_body_basic CONFIG sim_dom 0 ?s = ((None, 3), ?fin)"
    by (simp only: ex) simp
  have "delete_batch CONFIG sim_dom ?s =
            (case executeDeletion CONFIG sim_dom (sleep sim_dom 500 ?s3) of
               (Inl e, s5) \<Rightarrow> (Inl e, s5)
             | (Inr u, s5) \<Rightarrow> (Inr (length ?boxes), s5))"
    using R [THEN conjunct2, THEN conjunct2] by (simp only: sel)
  then have c: "delete_batch CONFIG sim_dom ?s = (Inr 3, ?fin)"
    by (simp only: ex) simp
  have a': "seek_and_select CONFIG sim_dom ?s =
      (Inr ?boxes,
       \<lparr>clock = 500,
        page = \<lparr>container = True, batches = [3], checked = [0, 2], dialog = False,
                detached = [1]\<rparr>,
        clicked = ?boxes\<rparr>)"
    using a by (simp add: sim_page_def)
  show ?thesis by (intro conjI thr a' b c)
qed

section \<open>Stall detection\<close>

text \<open>
  Claim C7. In a turn of the stall-detection script in which the count after the deletion is
  below the count before it, the stall counter becomes zero and the difference is added to
  the total; the loop goes on with these counters.
\<close>

theorem decrease_resets_and_adds:
  "delete_batch cfg D s = (Inr before, s5) \<and> count_after cfg D s5 = (after, s6) \<and> after < before
   \<longrightarrow> try_body_stall cfg D rs s =
         (Inr \<lparr>totalDeleted = totalDeleted rs + (before - after), stallCounter = 0\<rparr>, s6)
     \<and> run_loop_stall cfg D rs s =
         run_loop_stall cfg D
           \<lparr>totalDeleted = totalDeleted rs + (before - after), stallCounter = 0\<rparr> s6"
proof (intro impI, elim conjE)
  assume a: "delete_batch cfg D s = (Inr before, s5)" "count_after cfg D s5 = (after, s6)"
    "after < before"
  then have body: "try_body_stall cfg D rs s =
         (Inr \<lparr>totalDeleted = totalDeleted rs + (before - after), stallCounter = 0\<rparr>, s6)"
    by (simp add: try_body_stall_def account_def)
  have "run_loop_stall cfg D rs s =
         run_loop_stall cfg D
           \<lparr>totalDeleted = totalDeleted rs + (before - after), stallCounter = 0\<rparr> s6"
    by (subst run_loop_stall.simps) (simp add: body)
  with body show "try_body_stall cfg D rs s =
         (Inr \<lparr>totalDeleted = totalDeleted rs + (before - after), stallCounter = 0\<rparr>, s6)
     \<and> run_loop_stall cfg D rs s =
         run_loop_stall cfg D
           \<lparr>totalDeleted = totalDeleted rs + (before - after), stallCounter = 0\<rparr> s6"
    by simp
qed

text \<open>Batches of 3 and 1, counters 4 and 2 before the turn: 3 before, 1 after, counters 6 and 0.\<close>

theorem decrease_resets_and_adds_witness:
  "fst (delete_batch CONFIG sim_dom (start (sim_page True [3, 1]))) = Inr 3
   \<and> fst (count_after CONFIG sim_dom
            (snd (delete_batch CONFIG sim_dom (start (sim_page True [3, 1]))))) = 1
   \<and> fst (try_body_stall CONFIG sim_dom \<lparr>totalDeleted = 4, stallCounter = 2\<rparr>
            (start (sim_page True [3, 1]))) =
       Inr \<lparr>totalDeleted = 6, stallCounter = 0\<rparr>"
proof -
  let ?s = "start (sim_page True [3, 1]) :: (sim, sim_elem) state"
  obtain s5 where s5: "delete_batch CONFIG sim_dom ?s = (Inr 3, s5)" "page s5 = sim_page True [1]"
    using delete_batch_sim [where cfg = CONFIG and s = ?s and b = 3 and bs = "[1]"]
    by (auto simp: start_def pollInterval_def)
  obtain s6 where s6: "count_after CONFIG sim_dom s5 = (1, s6)"
    using count_after_sim [where cfg = CONFIG and s = s5 and c = True and bs = "[1]"] s5(2)
    by (auto simp: on_screen_def sim_page_def)
  have "(1::nat) < 3" by simp
  with s5(1) s6
    decrease_resets_and_adds [of CONFIG sim_dom ?s 3 s5 1 s6 "\<lparr>totalDeleted = 4, stallCounter = 2\<rparr>"]
  have "try_body_stall CONFIG sim_dom \<lparr>totalDeleted = 4, stallCounter = 2\<rparr> ?s =
         (Inr \<lparr>totalDeleted = totalDeleted \<lparr>totalDeleted = 4, stallCounter = 2\<rparr> + (3 - 1),
               stallCounter = 0\<rparr>, s6)"
    by blast
  then show ?thesis using s5(1) s6 by simp
qed

text \<open>
  Claim C10. When the second poll of the selectable controls, the one after the deletion,
  times out after its 5 seconds, the error is caught and the count after is 0. The count
  before is positive, so the turn does not throw: the stall counter becomes zero, the whole
  count before is added to the total, and the loop goes on.
\<close>

theorem verification_timeout_counts_as_zero:
  "delete_batch cfg D s = (Inr before, s5)
   \<and> waitUntil D (query_all_probe D (checkbox (selectors cfg)))
        ''any selectable photo'' 5000 s5 = (Inl e, s6)
   \<longrightarrow> count_after cfg D s5 = (0, s6)
     \<and> try_body_stall cfg D rs s =
         (Inr \<lparr>totalDeleted = totalDeleted rs + before, stallCounter = 0\<rparr>, s6)
     \<and> run_loop_stall cfg D rs s =
         run_loop_stall cfg D \<lparr>totalDeleted = totalDeleted rs + before, stallCounter = 0\<rparr> s6"
proof (intro impI, elim conjE)
  assume a: "delete_batch cfg D s = (Inr before, s5)"
    "waitUntil D (query_all_probe D (checkbox (selectors cfg)))
        ''any selectable photo'' 5000 s5 = (Inl e, s6)"
  have pos: "0 < before" by (rule delete_batch_positive [OF a(1)])
  have c: "count_after cfg D s5 = (0, s6)"
    using a(2) by (simp add: count_after_def)
  have body: "try_body_stall cfg D rs s =
         (Inr \<lparr>totalDeleted = totalDeleted rs + before, stallCounter = 0\<rparr>, s6)"
    using a(1) c pos by (simp add: try_body_stall_def account_def)
  have "run_loop_stall cfg D rs s =
         run_loop_stall cfg D \<lparr>totalDeleted = totalDeleted rs + before, stallCounter = 0\<rparr> s6"
    by (subst run_loop_stall.simps) (simp add: body)
  with c body show "count_after cfg D s5 = (0, s6)
     \<and> try_body_stall cfg D rs s =
         (Inr \<lparr>totalDeleted = totalDeleted rs + before, stallCounter = 0\<rparr>, s6)
     \<and> run_loop_stall cfg D rs s =
         run_loop_stall cfg D \<lparr>totalDeleted = totalDeleted rs + before, stallCounter = 0\<rparr> s6"
    by simp
qed

text \<open>One batch of 3, counters 4 and 2 before the turn.\<close>

theorem verification_timeout_counts_as_zero_witness:
  "fst (delete_batch CONFIG sim_dom (start (sim_page True [3]))) = Inr 3
   \<and> fst (waitUntil sim_dom (query_all_probe sim_dom (checkbox (selectors CONFIG)))
            ''any selectable photo'' 5000
            (snd (delete_batch CONFIG sim_dom (start (sim_page True [3]))))) =
       Inl (Error ''Timeout: Could not find any selectable photo after 5 seconds.'')
   \<and> fst (try_body_stall CONFIG sim_dom \<lparr>totalDeleted = 4, stallCounter = 2\<rparr>
            (start (sim_page True [3]))) =
       Inr \<lparr>totalDeleted = 7, stallCounter = 0\<rparr>"
proof -
  let ?s = "start (sim_page True [3]) :: (sim, sim_elem) state"
  let ?p = "query_all_probe sim_dom (checkbox (selectors CONFIG))"
  obtain s5 where s5: "delete_batch CONFIG sim_dom ?s = (Inr 3, s5)" "page s5 = sim_page True []"
    using delete_batch_sim [where cfg = CONFIG and s = ?s and b = 3 and bs = "[]"]
    by (auto simp: start_def pollInterval_def)
  have q: "?p (page s5) = JList []"
    using s5(2)
    by (simp add: query_all_probe_def sim_dom_fields sim_querySelectorAll_def sim_page_def on_screen_def)
  have w: "waitUntil sim_dom ?p ''any selectable photo'' 5000 s5 =
            (Inl (Error (timeout_message ''any selectable photo'' 5000)),
             s5\<lparr>clock := clock s5 + pollInterval * (5000 div pollInterval + 1)\<rparr>)"
    by (rule sim_wait_timeout) (simp add: q)
  have m: "timeout_message ''any selectable photo'' 5000 =
      ''Timeout: Could not find any selectable photo after 5 seconds.''"
    by (simp add: timeout_message_def timeout_5)
  from s5(1) w
    verification_timeout_counts_as_zero [of CONFIG sim_dom ?s 3 s5
      "Error (timeout_message ''any selectable photo'' 5000)"
      "s5\<lparr>clock := clock s5 + pollInterval * (5000 div pollInterval + 1)\<rparr>"
      "\<lparr>totalDeleted = 4, stallCounter = 2\<rparr>"]
  have "try_body_stall CONFIG sim_dom \<lparr>totalDeleted = 4, stallCounter = 2\<rparr> ?s =
         (Inr \<lparr>totalDeleted = totalDeleted \<lparr>totalDeleted = 4, stallCounter = 2\<rparr> + 3,
               stallCounter = 0\<rparr>,
          s5\<lparr>clock := clock s5 + pollInterval * (5000 div pollInterval + 1)\<rparr>)"
    by blast
  then show ?thesis using s5(1) w m by simp
qed

text \<open>
  Claim C2. Let the stall limit \<open>S\<close> be positive. At every head of the loop the stall counter
  is below \<open>S\<close>: no run goes into another turn with \<open>S\<close> stalled turns in a row behind it.
  And from a head of the loop where the counter is zero (the start of the run, or the turn
  after a decrease), if each of the next \<open>S\<close> turns the loop gets to is stalled, then the loop
  gets to the \<open>S\<close>-th of them and no further: the run halts there with the stall error, and
  reports the total it had.
\<close>

theorem stall_limit_bounds_retries:
  "0 < stallLimit cfg \<longrightarrow>
     (loop_head cfg D n \<lparr>totalDeleted = 0, stallCounter = 0\<rparr> s0 = Some (rs, s)
        \<longrightarrow> stallCounter rs < stallLimit cfg)
   \<and> (loop_head cfg D m rs0 t0 = Some (rs1, t) \<and> stallCounter rs1 = 0
       \<and> (\<forall>j rs' t'. j < stallLimit cfg \<and> loop_head cfg D j rs1 t = Some (rs', t')
              \<longrightarrow> stalled cfg D t')
       \<longrightarrow> loop_head cfg D (stallLimit cfg - 1) rs1 t \<noteq> None
         \<and> loop_head cfg D (stallLimit cfg) rs1 t = None
         \<and> map_option fst (run_loop_stall cfg D rs0 t0) =
             Some \<lparr>outcome = Halted stall_message, reported = totalDeleted rs1\<rparr>)"
proof (intro impI conjI)
  assume S: "0 < stallLimit cfg"
  {
    assume "loop_head cfg D n \<lparr>totalDeleted = 0, stallCounter = 0\<rparr> s0 = Some (rs, s)"
    then show "stallCounter rs < stallLimit cfg"
      using S by (rule loop_head_counter) (simp add: S)
  }
  {
    assume a: "loop_head cfg D m rs0 t0 = Some (rs1, t) \<and> stallCounter rs1 = 0
       \<and> (\<forall>j rs' t'. j < stallLimit cfg \<and> loop_head cfg D j rs1 t = Some (rs', t')
              \<longrightarrow> stalled cfg D t')"
    then have r: "loop_head cfg D (stallLimit cfg - 1) rs1 t \<noteq> None
         \<and> loop_head cfg D (stallLimit cfg) rs1 t = None
         \<and> map_option fst (run_loop_stall cfg D rs0 t0) =
             Some \<lparr>outcome = Halted stall_message, reported = totalDeleted rs1\<rparr>"
      using stall_limit_halts [OF S, of D m rs0 t0 rs1 t] by blast
    from r show "loop_head cfg D (stallLimit cfg - 1) rs1 t \<noteq> None" by simp
    from r show "loop_head cfg D (stallLimit cfg) rs1 t = None" by simp
    from r show "map_option fst (run_loop_stall cfg D rs0 t0) =
             Some \<lparr>outcome = Halted stall_message, reported = totalDeleted rs1\<rparr>" by simp
  }
qed

text \<open>
  Stall limit 2, three batches of 2: after each deletion as many controls are on screen as
  before, the first turn is a stall, the second halts the run.
\<close>

theorem stall_limit_bounds_retries_witness:
  "0 < stallLimit (CONFIG\<lparr>stallLimit := 2\<rparr>)
   \<and> stalled (CONFIG\<lparr>stallLimit := 2\<rparr>) sim_dom (start (sim_page True [2, 2, 2]))
   \<and> map_option (stallCounter \<circ> fst)
         (loop_head (CONFIG\<lparr>stallLimit := 2\<rparr>) sim_dom 1
            \<lparr>totalDeleted = 0, stallCounter = 0\<rparr> (start (sim_page True [2, 2, 2]))) = Some 1
   \<and> loop_head (CONFIG\<lparr>stallLimit := 2\<rparr>) sim_dom 2
         \<lparr>totalDeleted = 0, stallCounter = 0\<rparr> (start (sim_page True [2, 2, 2])) = None
   \<and> map_option fst
         (runPhotoDeleter_stall (CONFIG\<lparr>stallLimit := 2\<rparr>) sim_dom
            (start (sim_page True [2, 2, 2]))) =
       Some \<lparr>outcome = Halted stall_message, reported = 0\<rparr>"
proof -
  let ?cfg = "CONFIG\<lparr>stallLimit := 2\<rparr>"
  let ?rs = "\<lparr>totalDeleted = 0, stallCounter = 0\<rparr>"
  let ?s0 = "start (sim_page True [2, 2, 2]) :: (sim, sim_elem) state"
  have cfg: "selectors ?cfg = selectors CONFIG" "pollInterval \<le> timeout ?cfg"
    by (simp_all add: pollInterval_def)
  have S: "0 < stallLimit ?cfg" by simp
  have pg0: "page ?s0 = sim_page True (2 # [2, 2])" by (simp add: start_def)
  have st0: "stalled ?cfg sim_dom ?s0"
    using stalled_sim [OF cfg pg0] by (simp add: on_screen_def sim_page_def)
  obtain s1 where s1: "try_body_stall ?cfg sim_dom ?rs ?s0 =
        (account ?cfg ?rs 2 (on_screen (sim_page True [2, 2])), s1)" "page s1 = sim_page True (2 # [2])"
    using try_stall_sim [OF cfg pg0, of ?rs] by auto
  have acc: "account ?cfg ?rs 2 (on_screen (sim_page True [2, 2])) = Inr \<lparr>totalDeleted = 0, stallCounter = 1\<rparr>"
    by (simp add: account_def on_screen_def sim_page_def)
  have h1: "loop_head ?cfg sim_dom 1 ?rs ?s0 = Some (\<lparr>totalDeleted = 0, stallCounter = 1\<rparr>, s1)"
    by (simp add: s1 acc)
  have st1: "stalled ?cfg sim_dom s1"
    using stalled_sim [OF cfg s1(2)] by (simp add: on_screen_def sim_page_def)
  have hyp: "\<forall>j rs' t'. j < stallLimit ?cfg \<and> loop_head ?cfg sim_dom j ?rs ?s0 = Some (rs', t')
              \<longrightarrow> stalled ?cfg sim_dom t'"
  proof (intro allI impI)
    fix j rs' t'
    assume a: "j < stallLimit ?cfg \<and> loop_head ?cfg sim_dom j ?rs ?s0 = Some (rs', t')"
    then have "j = 0 \<or> j = 1" by auto
    then show "stalled ?cfg sim_dom t'"
    proof
      assume "j = 0"
      with a st0 show ?thesis by simp
    next
      assume "j = 1"
      with a h1 st1 show ?thesis by simp
    qed
  qed
  have h0: "loop_head ?cfg sim_dom 0 ?rs ?s0 = Some (?rs, ?s0)" by simp
  note T = stall_limit_bounds_retries [of ?cfg sim_dom 1 ?s0 "\<lparr>totalDeleted = 0, stallCounter = 1\<rparr>" s1
             0 ?rs ?s0 ?rs ?s0, THEN mp, OF S]
  from T h0 hyp have
    "loop_head ?cfg sim_dom (stallLimit ?cfg) ?rs ?s0 = None
     \<and> map_option fst (run_loop_stall ?cfg sim_dom ?rs ?s0) =
         Some \<lparr>outcome = Halted stall_message, reported = totalDeleted ?rs\<rparr>"
    by simp
  then show ?thesis using S st0 h1 by (simp add: runPhotoDeleter_stall_def)
qed

section \<open>How a run ends\<close>

text \<open>
  Claim C4, as amended. In the stall-detection script the outer \<^verbatim>\<open>catch\<close> goes by the message
  of the error: the timeout of the wait for selectable controls ends the run as Done; the
  timeouts of the waits for the photo container, for the delete button and for the
  confirmation button end it as Halted, as the stall error does. In the basic script every
  error that leaves the \<^verbatim>\<open>try\<close> block ends the run as Done. In each case the total at that
  moment is reported.
\<close>

theorem outer_catch_by_message:
  \<open>(waitUntil D (query_probe D (photoContainer (selectors cfg)))
        ''main photo container'' (timeout cfg) s = (Inl e, s1)
      \<longrightarrow> run_loop_stall cfg D rs s =
            Some (\<lparr>outcome = Halted (timeout_message ''main photo container'' (timeout cfg)),
                   reported = totalDeleted rs\<rparr>, s1)
        \<and> run_loop_basic cfg D t s = Some (\<lparr>outcome = Done, reported = t\<rparr>, s1))
   \<and> (waitUntil D (query_probe D (photoContainer (selectors cfg)))
        ''main photo container'' (timeout cfg) s = (Inr found, s1)
       \<and> waitUntil D (query_all_probe D (checkbox (selectors cfg)))
        ''any selectable photo'' (timeout cfg) s1 = (Inl e, s2)
      \<longrightarrow> run_loop_stall cfg D rs s = Some (\<lparr>outcome = Done, reported = totalDeleted rs\<rparr>, s2)
        \<and> run_loop_basic cfg D t s = Some (\<lparr>outcome = Done, reported = t\<rparr>, s2))
   \<and> (seek_and_select cfg D s = (Inr boxes, s3)
       \<and> executeDeletion cfg D (sleep D 500 s3) =
           (Inl (Error (timeout_message d (timeout cfg))), s5)
       \<and> (d = ''main "Move to trash" button'' \<or> d = ''confirmation "Move to trash" button'')
      \<longrightarrow> run_loop_stall cfg D rs s =
            Some (\<lparr>outcome = Halted (timeout_message d (timeout cfg)),
                   reported = totalDeleted rs\<rparr>, s5)
        \<and> run_loop_basic cfg D t s =
            Some (\<lparr>outcome = Done, reported = t + length boxes\<rparr>, s5))
   \<and> (try_body_stall cfg D rs s = (Inl (Error stall_message), s6)
      \<longrightarrow> run_loop_stall cfg D rs s =
            Some (\<lparr>outcome = Halted stall_message, reported = totalDeleted rs\<rparr>, s6))
   \<and> (try_body_basic cfg D t s = ((Some e', t'), s7)
      \<longrightarrow> run_loop_basic cfg D t s = Some (\<lparr>outcome = Done, reported = t'\<rparr>, s7))\<close>
proof (intro conjI impI)
  assume "waitUntil D (query_probe D (photoContainer (selectors cfg)))
        ''main photo container'' (timeout cfg) s = (Inl e, s1)"
  then show "run_loop_stall cfg D rs s =
            Some (\<lparr>outcome = Halted (timeout_message ''main photo container'' (timeout cfg)),
                   reported = totalDeleted rs\<rparr>, s1)"
    and "run_loop_basic cfg D t s = Some (\<lparr>outcome = Done, reported = t\<rparr>, s1)"
    by (rule catch_container_timeout)+
next
  assume "waitUntil D (query_probe D (photoContainer (selectors cfg)))
        ''main photo container'' (timeout cfg) s = (Inr found, s1)
       \<and> waitUntil D (query_all_probe D (checkbox (selectors cfg)))
        ''any selectable photo'' (timeout cfg) s1 = (Inl e, s2)"
  then show "run_loop_stall cfg D rs s = Some (\<lparr>outcome = Done, reported = totalDeleted rs\<rparr>, s2)"
    and "run_loop_basic cfg D t s = Some (\<lparr>outcome = Done, reported = t\<rparr>, s2)"
    using catch_selectable_timeout by blast+
next
  assume \<open>seek_and_select cfg D s = (Inr boxes, s3)
       \<and> executeDeletion cfg D (sleep D 500 s3) =
           (Inl (Error (timeout_message d (timeout cfg))), s5)
       \<and> (d = ''main "Move to trash" button'' \<or> d = ''confirmation "Move to trash" button'')\<close>
  then show "run_loop_stall cfg D rs s =
            Some (\<lparr>outcome = Halted (timeout_message d (timeout cfg)),
                   reported = totalDeleted rs\<rparr>, s5)"
    and "run_loop_basic cfg D t s =
            Some (\<lparr>outcome = Done, reported = t + length boxes\<rparr>, s5)"
    using catch_deletion_timeout by blast+
next
  assume "try_body_stall cfg D rs s = (Inl (Error stall_message), s6)"
  then show "run_loop_stall cfg D rs s =
            Some (\<lparr>outcome = Halted stall_message, reported = totalDeleted rs\<rparr>, s6)"
    using run_loop_stall_error [of cfg D rs s "Error stall_message" s6]
    by (simp add: stall_message_halts)
next
  assume "try_body_basic cfg D t s = ((Some e', t'), s7)"
  then show "run_loop_basic cfg D t s = Some (\<lparr>outcome = Done, reported = t'\<rparr>, s7)"
    by (rule run_loop_basic_error)
qed

text \<open>
  Three pages: no container; a container and no item; a batch of two whose boxes cannot be
  clicked, so that the delete button never shows.
\<close>

theorem outer_catch_by_message_witness:
  \<open>map_option fst (runPhotoDeleter_stall CONFIG sim_dom (start (sim_page False []))) =
      Some \<lparr>outcome = Halted ''Timeout: Could not find main photo container after 30 seconds.'',
            reported = 0\<rparr>
   \<and> map_option fst (runPhotoDeleter_basic CONFIG sim_dom (start (sim_page False []))) =
      Some \<lparr>outcome = Done, reported = 0\<rparr>
   \<and> map_option fst (runPhotoDeleter_stall CONFIG sim_dom (start (sim_page True []))) =
      Some \<lparr>outcome = Done, reported = 0\<rparr>
   \<and> map_option fst (runPhotoDeleter_basic CONFIG sim_dom (start (sim_page True []))) =
      Some \<lparr>outcome = Done, reported = 0\<rparr>
   \<and> map_option fst (runPhotoDeleter_stall CONFIG sim_dom
        (start ((sim_page True [2])\<lparr>detached := [0, 1]\<rparr>))) =
      Some \<lparr>outcome =
              Halted ''Timeout: Could not find main "Move to trash" button after 30 seconds.'',
            reported = 0\<rparr>
   \<and> map_option fst (runPhotoDeleter_basic CONFIG sim_dom
        (start ((sim_page True [2])\<lparr>detached := [0, 1]\<rparr>))) =
      Some \<lparr>outcome = Done, reported = 2\<rparr>\<close>
proof -
  let ?rs = "\<lparr>totalDeleted = 0, stallCounter = 0\<rparr>"
  let ?a = "start (sim_page False []) :: (sim, sim_elem) state"
  let ?b = "start (sim_page True []) :: (sim, sim_elem) state"
  let ?c = "start ((sim_page True [2])\<lparr>detached := [0, 1]\<rparr>) :: (sim, sim_elem) state"
  have A: "waitUntil sim_dom (query_probe sim_dom (photoContainer (selectors CONFIG)))
             ''main photo container'' (timeout CONFIG) ?a =
           (Inl (Error (timeout_message ''main photo container'' 30000)),
            ?a\<lparr>clock := clock ?a + 30250\<rparr>)"
    by (rule sim_no_container_wait) (simp add: start_def)
  have B1: "waitUntil sim_dom (query_probe sim_dom (photoContainer (selectors CONFIG)))
             ''main photo container'' (timeout CONFIG) ?b =
           (Inr (JNode Container), ?b\<lparr>clock := clock ?b + 250\<rparr>)"
    by (rule sim_container_wait) (simp add: start_def sim_page_def)
  have B2: "waitUntil sim_dom (query_all_probe sim_dom (checkbox (selectors CONFIG)))
             ''any selectable photo'' (timeout CONFIG) (?b\<lparr>clock := clock ?b + 250\<rparr>) =
           (Inl (Error (timeout_message ''any selectable photo'' 30000)),
            ?b\<lparr>clock := clock ?b + 250, clock := clock (?b\<lparr>clock := clock ?b + 250\<rparr>) + 30250\<rparr>)"
    using sim_no_selectable_wait [of "?b\<lparr>clock := clock ?b + 250\<rparr>"]
    by (simp add: start_def sim_page_def on_screen_def)
  note C1 = sim_all_detached_seek
  note C2 = sim_all_detached_deletion
  note T = outer_catch_by_message [where cfg = CONFIG and D = sim_dom and rs = ?rs and t = 0]
  have a: "run_loop_stall CONFIG sim_dom ?rs ?a =
            Some (\<lparr>outcome = Halted (timeout_message ''main photo container'' (timeout CONFIG)),
                   reported = totalDeleted ?rs\<rparr>, ?a\<lparr>clock := clock ?a + 30250\<rparr>)
        \<and> run_loop_basic CONFIG sim_dom 0 ?a =
            Some (\<lparr>outcome = Done, reported = 0\<rparr>, ?a\<lparr>clock := clock ?a + 30250\<rparr>)"
    using A T [where s = ?a and e = "Error (timeout_message ''main photo container'' 30000)"
                 and ?s1.0 = "?a\<lparr>clock := clock ?a + 30250\<rparr>"]
    by blast
  have b: "run_loop_stall CONFIG sim_dom ?rs ?b =
            Some (\<lparr>outcome = Done, reported = totalDeleted ?rs\<rparr>,
                  ?b\<lparr>clock := clock ?b + 250, clock := clock (?b\<lparr>clock := clock ?b + 250\<rparr>) + 30250\<rparr>)
        \<and> run_loop_basic CONFIG sim_dom 0 ?b =
            Some (\<lparr>outcome = Done, reported = 0\<rparr>,
                  ?b\<lparr>clock := clock ?b + 250, clock := clock (?b\<lparr>clock := clock ?b + 250\<rparr>) + 30250\<rparr>)"
    using B1 B2 T [where s = ?b and e = "Error (timeout_message ''any selectable photo'' 30000)"
                 and found = "JNode Container" and ?s1.0 = "?b\<lparr>clock := clock ?b + 250\<rparr>"
                 and ?s2.0 = "?b\<lparr>clock := clock ?b + 250, clock := clock (?b\<lparr>clock := clock ?b + 250\<rparr>) + 30250\<rparr>"]
    by blast
  have c: \<open>run_loop_stall CONFIG sim_dom ?rs ?c =
            Some (\<lparr>outcome = Halted (timeout_message ''main "Move to trash" button'' (timeout CONFIG)),
                   reported = totalDeleted ?rs\<rparr>,
                  \<lparr>clock = 31250, page = (sim_page True [2])\<lparr>detached := [0, 1]\<rparr>, clicked = [Checkbox 0, Checkbox 1]\<rparr>)
        \<and> run_loop_basic CONFIG sim_dom 0 ?c =
            Some (\<lparr>outcome = Done, reported = 0 + length [Checkbox 0, Checkbox 1]\<rparr>,
                  \<lparr>clock = 31250, page = (sim_page True [2])\<lparr>detached := [0, 1]\<rparr>, clicked = [Checkbox 0, Checkbox 1]\<rparr>)\<close>
    using C1 C2 T [where s = ?c and boxes = "[Checkbox 0, Checkbox 1]"
                 and d = \<open>''main "Move to trash" button''\<close>
                 and ?s3.0 = "\<lparr>clock = 500, page = (sim_page True [2])\<lparr>detached := [0, 1]\<rparr>, clicked = [Checkbox 0, Checkbox 1]\<rparr>"
                 and ?s5.0 = "\<lparr>clock = 31250, page = (sim_page True [2])\<lparr>detached := [0, 1]\<rparr>, clicked = [Checkbox 0, Checkbox 1]\<rparr>"]
    by blast
  show ?thesis
    using a b c
    by (simp add: runPhotoDeleter_stall_def runPhotoDeleter_basic_def msg_container_30 msg_delete_30)
qed

text \<open>
  The claim as stated fails in the stall-detection script: a timeout error, here of the wait
  for the delete button, gets to the outer loop and halts the run on error.
\<close>

theorem delete_timeout_halts_counterexample:
  \<open>map_option fst (runPhotoDeleter_stall CONFIG sim_dom
        (start ((sim_page True [2])\<lparr>detached := [0, 1]\<rparr>))) =
      Some \<lparr>outcome =
              Halted ''Timeout: Could not find main "Move to trash" button after 30 seconds.'',
            reported = 0\<rparr>\<close>
  using catch_deletion_timeout(1) [OF sim_all_detached_seek sim_all_detached_deletion,
          of "\<lparr>totalDeleted = 0, stallCounter = 0\<rparr>"]
  by (simp add: runPhotoDeleter_stall_def msg_delete_30)

text \<open>
  Claim C5, as amended. On a page where no selectable control shows however long one waits,
  the basic script ends as Done with total 0. The stall-detection script ends as Done with
  total 0 when the photo container is on the page at some poll of the first wait; when the
  container is there at none of them, it ends as Halted, with total 0.
\<close>

theorem empty_page_ends_done:
  assumes "\<forall>k. querySelectorAll D (checkbox (selectors cfg)) (page (after_ticks D k s)) = []"
  shows "map_option fst (runPhotoDeleter_basic cfg D s) = Some \<lparr>outcome = Done, reported = 0\<rparr>
    \<and> ((\<exists>k. 0 < k \<and> pollInterval * k \<le> timeout cfg
            \<and> querySelector D (photoContainer (selectors cfg)) (page (after_ticks D k s)) \<noteq> None)
        \<longrightarrow> map_option fst (runPhotoDeleter_stall cfg D s) =
              Some \<lparr>outcome = Done, reported = 0\<rparr>)
    \<and> ((\<forall>k. 0 < k \<and> pollInterval * k \<le> timeout cfg
            \<longrightarrow> querySelector D (photoContainer (selectors cfg)) (page (after_ticks D k s)) = None)
        \<longrightarrow> map_option fst (runPhotoDeleter_stall cfg D s) =
              Some \<lparr>outcome = Halted (timeout_message ''main photo container'' (timeout cfg)),
                    reported = 0\<rparr>)"
proof (intro conjI impI)
  show "map_option fst (runPhotoDeleter_basic cfg D s) = Some \<lparr>outcome = Done, reported = 0\<rparr>"
    using no_selectable_basic [OF assms, of 0] by (auto simp: runPhotoDeleter_basic_def)
next
  let ?p1 = "query_probe D (photoContainer (selectors cfg))"
  assume "\<exists>k. 0 < k \<and> pollInterval * k \<le> timeout cfg
            \<and> querySelector D (photoContainer (selectors cfg)) (page (after_ticks D k s)) \<noteq> None"
  then obtain k where k: "0 < k" "pollInterval * k \<le> timeout cfg"
     "querySelector D (photoContainer (selectors cfg)) (page (after_ticks D k s)) \<noteq> None"
    by blast
  from k(3) have "satisfied (?p1 (page (after_ticks D k s)))"
    by (auto simp: query_probe_def)
  from waitUntil_appears [of k "timeout cfg" ?p1 D s "''main photo container''", OF k(1,2) this]
  obtain found s1 where "waitUntil D ?p1 ''main photo container'' (timeout cfg) s = (Inr found, s1)"
    by blast
  from no_selectable_stall [OF assms this, of "\<lparr>totalDeleted = 0, stallCounter = 0\<rparr>"]
  show "map_option fst (runPhotoDeleter_stall cfg D s) = Some \<lparr>outcome = Done, reported = 0\<rparr>"
    by (auto simp: runPhotoDeleter_stall_def)
next
  let ?p1 = "query_probe D (photoContainer (selectors cfg))"
  assume "\<forall>k. 0 < k \<and> pollInterval * k \<le> timeout cfg
            \<longrightarrow> querySelector D (photoContainer (selectors cfg)) (page (after_ticks D k s)) = None"
  then have "\<forall>j. 0 < j \<and> pollInterval * j \<le> timeout cfg \<longrightarrow>
           \<not> satisfied (?p1 (page (after_ticks D j s)))"
    by (simp add: query_probe_def)
  then have "waitUntil D ?p1 ''main photo container'' (timeout cfg) s =
       (Inl (Error (timeout_message ''main photo container'' (timeout cfg))),
        after_ticks D (timeout cfg div pollInterval + 1) s)"
    by (rule waitUntil_rejects)
  from catch_container_timeout(1) [OF this, of "\<lparr>totalDeleted = 0, stallCounter = 0\<rparr>"]
  show "map_option fst (runPhotoDeleter_stall cfg D s) =
              Some \<lparr>outcome = Halted (timeout_message ''main photo container'' (timeout cfg)),
                    reported = 0\<rparr>"
    by (simp add: runPhotoDeleter_stall_def)
qed

text \<open>The empty page with its container, and the empty page without.\<close>

theorem empty_page_ends_done_witness:
  "(\<forall>k. querySelectorAll sim_dom (checkbox (selectors CONFIG))
          (page (after_ticks sim_dom k (start (sim_page True [])))) = [])
   \<and> map_option fst (runPhotoDeleter_basic CONFIG sim_dom (start (sim_page True []))) =
       Some \<lparr>outcome = Done, reported = 0\<rparr>
   \<and> map_option fst (runPhotoDeleter_stall CONFIG sim_dom (start (sim_page True []))) =
       Some \<lparr>outcome = Done, reported = 0\<rparr>
   \<and> (\<forall>k. querySelectorAll sim_dom (checkbox (selectors CONFIG))
          (page (after_ticks sim_dom k (start (sim_page False [])))) = [])
   \<and> map_option fst (runPhotoDeleter_basic CONFIG sim_dom (start (sim_page False []))) =
       Some \<lparr>outcome = Done, reported = 0\<rparr>
   \<and> map_option fst (runPhotoDeleter_stall CONFIG sim_dom (start (sim_page False []))) =
       Some \<lparr>outcome = Halted ''Timeout: Could not find main photo container after 30 seconds.'',
             reported = 0\<rparr>"
proof -
  let ?a = "start (sim_page True []) :: (sim, sim_elem) state"
  let ?b = "start (sim_page False []) :: (sim, sim_elem) state"
  have Ha: "\<forall>k. querySelectorAll sim_dom (checkbox (selectors CONFIG))
          (page (after_ticks sim_dom k ?a)) = []"
    by (simp add: after_ticks_sim sim_dom_fields sim_querySelectorAll_def start_def sim_page_def on_screen_def)
  have Hb: "\<forall>k. querySelectorAll sim_dom (checkbox (selectors CONFIG))
          (page (after_ticks sim_dom k ?b)) = []"
    by (simp add: after_ticks_sim sim_dom_fields sim_querySelectorAll_def start_def sim_page_def on_screen_def)
  have ca: "\<exists>k. 0 < k \<and> pollInterval * k \<le> timeout CONFIG
            \<and> querySelector sim_dom (photoContainer (selectors CONFIG)) (page (after_ticks sim_dom k ?a)) \<noteq> None"
    by (rule exI [of _ 1])
       (simp add: after_ticks_sim sim_dom_fields sim_querySelector_def start_def sim_page_def pollInterval_def)
  have cb: "\<forall>k. 0 < k \<and> pollInterval * k \<le> timeout CONFIG
            \<longrightarrow> querySelector sim_dom (photoContainer (selectors CONFIG)) (page (after_ticks sim_dom k ?b)) = None"
    by (simp add: after_ticks_sim sim_dom_fields sim_querySelector_def start_def sim_page_def)
  note Ta = empty_page_ends_done [OF Ha]
  note Tb = empty_page_ends_done [OF Hb]
  have a1: "map_option fst (runPhotoDeleter_basic CONFIG sim_dom ?a) =
      Some \<lparr>outcome = Done, reported = 0\<rparr>"
    by (rule Ta [THEN conjunct1])
  have a2: "map_option fst (runPhotoDeleter_stall CONFIG sim_dom ?a) =
      Some \<lparr>outcome = Done, reported = 0\<rparr>"
    by (rule Ta [THEN conjunct2, THEN conjunct1, THEN mp, OF ca])
  have b1: "map_option fst (runPhotoDeleter_basic CONFIG sim_dom ?b) =
      Some \<lparr>outcome = Done, reported = 0\<rparr>"
    by (rule Tb [THEN conjunct1])
  have m: "timeout_message ''main photo container'' (timeout CONFIG) =
      ''Timeout: Could not find main photo container after 30 seconds.''"
    by (simp add: msg_container_30)
  have b2: "map_option fst (runPhotoDeleter_stall CONFIG sim_dom ?b) =
      Some \<lparr>outcome = Halted ''Timeout: Could not find main photo container after 30 seconds.'',
            reported = 0\<rparr>"
    using Tb [THEN conjunct2, THEN conjunct2, THEN mp, OF cb] by (simp only: m)
  show ?thesis by (intro conjI Ha Hb a1 a2 b1 b2)
qed

text \<open>
  The claim as stated fails in the stall-detection script on an empty page that has no photo
  container either: the first wait times out and the run is halted on error.
\<close>

theorem no_container_halts_counterexample:
  "querySelectorAll sim_dom (checkbox (selectors CONFIG)) (sim_page False []) = []
   \<and> map_option fst (runPhotoDeleter_stall CONFIG sim_dom (start (sim_page False []))) =
       Some \<lparr>outcome = Halted ''Timeout: Could not find main photo container after 30 seconds.'',
             reported = 0\<rparr>"
proof -
  let ?b = "start (sim_page False []) :: (sim, sim_elem) state"
  have "waitUntil sim_dom (query_probe sim_dom (photoContainer (selectors CONFIG)))
             ''main photo container'' (timeout CONFIG) ?b =
           (Inl (Error (timeout_message ''main photo container'' 30000)),
            ?b\<lparr>clock := clock ?b + 30250\<rparr>)"
    by (rule sim_no_container_wait) (simp add: start_def)
  from catch_container_timeout(1) [OF this, of "\<lparr>totalDeleted = 0, stallCounter = 0\<rparr>"]
  have r: "map_option fst (runPhotoDeleter_stall CONFIG sim_dom ?b) =
       Some \<lparr>outcome = Halted ''Timeout: Could not find main photo container after 30 seconds.'',
             reported = 0\<rparr>"
    by (simp add: runPhotoDeleter_stall_def msg_container_30)
  have q: "querySelectorAll sim_dom (checkbox (selectors CONFIG)) (sim_page False []) = []"
    by (simp add: sim_dom_fields sim_querySelectorAll_def sim_page_def on_screen_def)
  show ?thesis by (intro conjI q r)
qed

section \<open>The simulated page\<close>




end
